theory Spec2Isabelle
  imports Main "HOL-Library.Sublist" "HOL-Library.AList"
begin

section \<open>JavaScript strings and the character classes of the regular expressions\<close>

text \<open>
  A JavaScript string is a sequence of UTF-16 code units; a code unit is modelled by its
  number. \<open>asc\<close> turns an ASCII literal of the source into its code units.
\<close>

type_synonym jsstring = "nat list"

definition asc :: "string \<Rightarrow> jsstring" where
  "asc = map of_char"

text \<open>
  \<^verbatim>\<open>\s\<close> of a regular expression, and the characters \<^verbatim>\<open>trim()\<close> removes: the
  white space and the line terminators of ECMAScript (TAB, LF, VT, FF, CR, SP, NBSP,
  U+1680, U+2000 to U+200A, U+2028, U+2029, U+202F, U+205F, U+3000, U+FEFF).
\<close>

definition isSpace :: "nat \<Rightarrow> bool" where
  "isSpace c = (c = 9 \<or> c = 10 \<or> c = 11 \<or> c = 12 \<or> c = 13 \<or> c = 32 \<or> c = 160 \<or> c = 5760
     \<or> (8192 \<le> c \<and> c \<le> 8202) \<or> c = 8232 \<or> c = 8233 \<or> c = 8239 \<or> c = 8287
     \<or> c = 12288 \<or> c = 65279)"

text \<open>\<^verbatim>\<open>\d\<close>: the ASCII digits.\<close>

definition isDigit :: "nat \<Rightarrow> bool" where
  "isDigit c = (48 \<le> c \<and> c \<le> 57)"

text \<open>The line terminators (LF, CR, U+2028, U+2029): the characters \<^verbatim>\<open>.\<close> does not match.\<close>

definition isLineTerminator :: "nat \<Rightarrow> bool" where
  "isLineTerminator c = (c = 10 \<or> c = 13 \<or> c = 8232 \<or> c = 8233)"

text \<open>
  Matching under the \<^verbatim>\<open>i\<close> flag compares canonicalised characters. Every pattern
  character of the source is ASCII, and a character from 128 on never canonicalises to an
  ASCII one, so mapping the ASCII lower-case letters to upper case decides every comparison
  the source's patterns make.
\<close>

definition canonicalize :: "nat \<Rightarrow> nat" where
  "canonicalize c = (if 97 \<le> c \<and> c \<le> 122 then c - 32 else c)"

text \<open>The pattern \<open>p\<close> matches, ignoring case, at the start of \<open>s\<close>.\<close>

definition startsWithCI :: "jsstring \<Rightarrow> jsstring \<Rightarrow> bool" where
  "startsWithCI p s = prefix (map canonicalize p) (map canonicalize s)"

text \<open>\<^verbatim>\<open>String.prototype.trim\<close>, \<^verbatim>\<open>includes\<close> and \<^verbatim>\<open>substring(a, b)\<close> with \<open>a \<le> b\<close>.\<close>

definition trim :: "jsstring \<Rightarrow> jsstring" where
  "trim s = rev (dropWhile isSpace (rev (dropWhile isSpace s)))"

definition includesStr :: "jsstring \<Rightarrow> jsstring \<Rightarrow> bool" where
  "includesStr s w = sublist w s"

definition substring :: "jsstring \<Rightarrow> nat \<Rightarrow> nat \<Rightarrow> jsstring" where
  "substring s a b = take (b - a) (drop a s)"

text \<open>A number in a template literal: its decimal digits.\<close>

function showNat :: "nat \<Rightarrow> jsstring" where
  "showNat n = (if n < 10 then [48 + n] else showNat (n div 10) @ [48 + n mod 10])"
  by pat_completeness auto
termination
  by (relation "measure id") auto

text \<open>
  \<^verbatim>\<open>str.match(re)\<close> for a pattern without the \<^verbatim>\<open>g\<close> flag: the match at the leftmost
  start index at which the pattern matches, every index from 0 to the length being tried
  in turn. \<open>m\<close> is the pattern anchored at the start of its argument.
\<close>

fun regexSearch :: "(jsstring \<Rightarrow> 'a option) \<Rightarrow> jsstring \<Rightarrow> 'a option" where
  "regexSearch m [] = m []"
| "regexSearch m (c # cs) = (case m (c # cs) of Some r \<Rightarrow> Some r | None \<Rightarrow> regexSearch m cs)"

section \<open>formatResponse\<close>

text \<open>\<^verbatim>\<open>text.replace(/\s+/g, ' ')\<close>: every maximal run of white space becomes one space.\<close>

function collapseSpaces :: "jsstring \<Rightarrow> jsstring" where
  "collapseSpaces [] = []"
| "collapseSpaces (c # cs) =
     (if isSpace c then 32 # collapseSpaces (dropWhile isSpace cs) else c # collapseSpaces cs)"
  by pat_completeness auto
termination
  by (relation "measure length") (auto simp: length_dropWhile_le less_Suc_eq_le)

definition cleanedText :: "jsstring \<Rightarrow> jsstring" where
  "cleanedText text = trim (collapseSpaces text)"

text \<open>
  The pattern \<^verbatim>\<open>/\d+\.\s*Idea Name:/\<close> anchored at the start of \<open>s\<close>; the result is the
  text after the match. Both greedy quantifiers are followed by a character outside their
  class (a period after the digits, the letter I after the white space), so giving back a
  character never helps and the longest runs decide the match.
\<close>

definition matchDelimiter :: "jsstring \<Rightarrow> jsstring option" where
  "matchDelimiter s =
     (if takeWhile isDigit s = [] then None
      else (case dropWhile isDigit s of
              [] \<Rightarrow> None
            | c # r \<Rightarrow>
                if c = 46 \<and> prefix (asc ''Idea Name:'') (dropWhile isSpace r)
                then Some (drop 10 (dropWhile isSpace r)) else None))"

lemma matchDelimiter_shorter: "matchDelimiter s = Some r \<Longrightarrow> length r < length s"
proof -
  assume m: "matchDelimiter s = Some r"
  then obtain c t where d: "dropWhile isDigit s = c # t" and r: "r = drop 10 (dropWhile isSpace t)"
    by (auto simp: matchDelimiter_def split: if_splits list.splits)
  have "length r \<le> length t"
    using r by (simp add: le_diff_conv trans_le_add1 length_dropWhile_le)
  moreover have "length (c # t) \<le> length s"
    using length_dropWhile_le [of isDigit s] d by simp
  ultimately show ?thesis by simp
qed

text \<open>
  \<^verbatim>\<open>cleanedText.split(/\d+\.\s*Idea Name:/)\<close>: the pattern is tried at every index from the
  end of the last match on; where it matches, the text since the last match is one piece and
  the search goes on after the match; the text after the last match is the last piece.
  \<open>piece\<close> is the text read since the last match.
\<close>

function splitIdeas :: "jsstring \<Rightarrow> jsstring \<Rightarrow> jsstring list" where
  "splitIdeas piece [] = [piece]"
| "splitIdeas piece (c # cs) =
     (case matchDelimiter (c # cs) of
        Some rest \<Rightarrow> piece # splitIdeas [] rest
      | None \<Rightarrow> splitIdeas (piece @ [c]) cs)"
  by pat_completeness auto
termination
  by (relation "measure (\<lambda>(piece, s). length s)") (auto dest: matchDelimiter_shorter)

definition ideaBlocks :: "jsstring \<Rightarrow> jsstring list" where
  "ideaBlocks text = filter (\<lambda>block. trim block \<noteq> []) (splitIdeas [] (cleanedText text))"

text \<open>
  The look-ahead \<^verbatim>\<open>(?=\s*Label:|$)\<close> at the start of \<open>s\<close>: white space and then the next
  label, ignoring case, or the end of the text. Every label starts with a letter, so only
  the longest run of white space can be followed by it.
\<close>

definition lookahead :: "jsstring \<Rightarrow> jsstring \<Rightarrow> bool" where
  "lookahead nextLabel s = (startsWithCI nextLabel (dropWhile isSpace s) \<or> s = [])"

text \<open>
  \<^verbatim>\<open>(.*?)(?=\s*Label:|$)\<close>: the shortest run of characters other than line terminators
  after which the look-ahead holds; no match when a line terminator comes first.
\<close>

fun lazyCapture :: "jsstring \<Rightarrow> jsstring \<Rightarrow> jsstring option" where
  "lazyCapture nextLabel [] = Some []"
| "lazyCapture nextLabel (c # cs) =
     (if lookahead nextLabel (c # cs) then Some []
      else if isLineTerminator c then None
      else map_option ((#) c) (lazyCapture nextLabel cs))"

text \<open>
  \<^verbatim>\<open>/Label:\s*(.*?)(?=\s*Next:|$)/i\<close> anchored at the start of \<open>s\<close>; the result is the
  capture group. The capture starts after the longest run of white space: started earlier
  it would begin with white space, before which the look-ahead fails exactly when it fails
  after that white space, and it would have to cross the same characters.
\<close>

definition matchField :: "jsstring \<Rightarrow> jsstring \<Rightarrow> jsstring \<Rightarrow> jsstring option" where
  "matchField label nextLabel s =
     (if startsWithCI label s
      then lazyCapture nextLabel (dropWhile isSpace (drop (length label) s))
      else None)"

text \<open>\<^verbatim>\<open>/summary:\s*(.*)/i\<close> anchored at the start of \<open>s\<close>.\<close>

definition matchSummary :: "jsstring \<Rightarrow> jsstring option" where
  "matchSummary s =
     (if startsWithCI (asc ''summary:'') s
      then Some (takeWhile (\<lambda>c. \<not> isLineTerminator c) (dropWhile isSpace (drop 8 s)))
      else None)"

definition ideaNameMatch :: "jsstring \<Rightarrow> jsstring option" where
  "ideaNameMatch fullBlock = regexSearch (matchField (asc ''Idea Name:'') (asc ''Concept:'')) fullBlock"

definition conceptMatch :: "jsstring \<Rightarrow> jsstring option" where
  "conceptMatch fullBlock = regexSearch (matchField (asc ''Concept:'') (asc ''Key Features:'')) fullBlock"

definition keyFeaturesMatch :: "jsstring \<Rightarrow> jsstring option" where
  "keyFeaturesMatch fullBlock =
     regexSearch (matchField (asc ''Key Features:'') (asc ''Target Market:'')) fullBlock"

definition targetMarketMatch :: "jsstring \<Rightarrow> jsstring option" where
  "targetMarketMatch fullBlock =
     regexSearch (matchField (asc ''Target Market:'') (asc ''Unique Value Proposition:'')) fullBlock"

definition uspMatch :: "jsstring \<Rightarrow> jsstring option" where
  "uspMatch fullBlock =
     regexSearch (matchField (asc ''Unique Value Proposition:'') (asc ''Monetization:'')) fullBlock"

definition monetizationMatch :: "jsstring \<Rightarrow> jsstring option" where
  "monetizationMatch fullBlock =
     regexSearch (matchField (asc ''Monetization:'') (asc ''Potential Challenges/Considerations:''))
       fullBlock"

definition challengesMatch :: "jsstring \<Rightarrow> jsstring option" where
  "challengesMatch fullBlock =
     regexSearch (matchField (asc ''Potential Challenges/Considerations:'') (asc ''Summary:''))
       fullBlock"

definition summaryMatch :: "jsstring \<Rightarrow> jsstring option" where
  "summaryMatch fullBlock = regexSearch matchSummary fullBlock"

text \<open>The eight fields of one idea, as lines 42 to 49 of the source compute them.\<close>

record idea =
  ideaName :: jsstring
  concept :: jsstring
  keyFeatures :: jsstring
  targetMarket :: jsstring
  usp :: jsstring
  monetization :: jsstring
  challenges :: jsstring
  summary :: jsstring

definition orNA :: "jsstring option \<Rightarrow> jsstring" where
  "orNA m = (case m of Some captured \<Rightarrow> trim captured | None \<Rightarrow> asc ''N/A'')"

definition extractIdea :: "jsstring \<Rightarrow> nat \<Rightarrow> idea" where
  "extractIdea fullBlock index =
     \<lparr> ideaName = (case ideaNameMatch fullBlock of
                     Some captured \<Rightarrow> trim (filter (\<lambda>c. c \<noteq> 42 \<and> c \<noteq> 45) captured)
                   | None \<Rightarrow> asc ''Idea '' @ showNat (index + 1)),
       concept = orNA (conceptMatch fullBlock),
       keyFeatures = orNA (keyFeaturesMatch fullBlock),
       targetMarket = orNA (targetMarketMatch fullBlock),
       usp = orNA (uspMatch fullBlock),
       monetization = orNA (monetizationMatch fullBlock),
       challenges = orNA (challengesMatch fullBlock),
       summary = orNA (summaryMatch fullBlock) \<rparr>"

text \<open>The template literal of lines 52 to 70; \<open>nl\<close> is the line feed.\<close>

definition nl :: jsstring where
  "nl = [10]"

definition renderIdea :: "nat \<Rightarrow> idea \<Rightarrow> jsstring" where
  "renderIdea index r =
     nl @ asc ''**'' @ showNat (index + 1) @ asc ''. Idea Name:** '' @ ideaName r @ nl
     @ nl @ asc ''  **Concept:** '' @ concept r @ nl
     @ nl @ asc ''  **Key Features:** '' @ keyFeatures r @ nl
     @ nl @ asc ''  **Target Market:** '' @ targetMarket r @ nl
     @ nl @ asc ''  **Unique Value Proposition:** '' @ usp r @ nl
     @ nl @ asc ''  **Monetization:** '' @ monetization r @ nl
     @ nl @ asc ''  **Potential Challenges/Considerations:** '' @ challenges r @ nl
     @ nl @ asc ''  **Summary:** '' @ summary r @ nl
     @ nl @ asc ''---'' @ nl"

text \<open>The body of the \<^verbatim>\<open>forEach\<close> callback: what one block adds to \<^verbatim>\<open>textOutput\<close>.\<close>

definition formatBlock :: "jsstring \<Rightarrow> nat \<Rightarrow> jsstring" where
  "formatBlock block index =
     renderIdea index (extractIdea (asc ''Idea Name:'' @ trim block) index)"

definition formatResponse :: "jsstring \<Rightarrow> jsstring" where
  "formatResponse text =
     trim (concat (map (\<lambda>(index, block). formatBlock block index) (enumerate 0 (ideaBlocks text))))"

section \<open>Values of the JavaScript heap\<close>

text \<open>
  What \<^verbatim>\<open>JSON.parse\<close> returns: null, a boolean, a number, a string, an array or an
  object with its properties in insertion order. An array carries the named properties the
  code may assign to it. Numbers stand for IEEE doubles; the code only asks whether one is
  zero. \<open>None\<close> of type \<open>json option\<close> is \<^verbatim>\<open>undefined\<close>.
\<close>

datatype json =
    JNull
  | JBool bool
  | JNum int
  | JStr jsstring
  | JArr "json list" "(jsstring \<times> json) list"
  | JObj "(jsstring \<times> json) list"

text \<open>A thrown \<^verbatim>\<open>Error\<close> with its \<^verbatim>\<open>message\<close>.\<close>

datatype jserror = Error (message: jsstring)

definition typeError :: jserror where
  "typeError = Error (asc ''TypeError'')"

text \<open>Truthiness, as \<^verbatim>\<open>!v\<close>, \<^verbatim>\<open>a && b\<close> and \<^verbatim>\<open>a || b\<close> test it.\<close>

fun truthy :: "json option \<Rightarrow> bool" where
  "truthy None = False"
| "truthy (Some JNull) = False"
| "truthy (Some (JBool b)) = b"
| "truthy (Some (JNum n)) = (n \<noteq> 0)"
| "truthy (Some (JStr s)) = (s \<noteq> [])"
| "truthy (Some (JArr elems props)) = True"
| "truthy (Some (JObj props)) = True"

text \<open>
  The property read \<^verbatim>\<open>v.key\<close> on a value that is neither null nor undefined, for the keys
  the code reads (none of them is a property of a prototype): an object or an array answers
  from its own properties, a primitive with \<^verbatim>\<open>undefined\<close>. On null and undefined the
  read throws; the code guards every read but \<^verbatim>\<open>parsedResponse.type\<close>, which
  \<open>classify\<close> treats on its own.
\<close>

fun field :: "json option \<Rightarrow> jsstring \<Rightarrow> json option" where
  "field (Some (JObj props)) key = map_of props key"
| "field (Some (JArr elems props)) key = map_of props key"
| "field v key = None"

text \<open>
  The assignment \<^verbatim>\<open>v.key = x\<close> on a truthy value: an own property is replaced in place
  or appended; on a primitive the assignment is ignored (the module is not in strict mode).
\<close>

fun setField :: "json \<Rightarrow> jsstring \<Rightarrow> json \<Rightarrow> json" where
  "setField (JObj props) key x = JObj (AList.update key x props)"
| "setField (JArr elems props) key x = JArr elems (AList.update key x props)"
| "setField v key x = v"

text \<open>\<^verbatim>\<open>a || b\<close> on values.\<close>

definition orElse :: "json option \<Rightarrow> json \<Rightarrow> json" where
  "orElse a b = (case a of Some v \<Rightarrow> if truthy a then v else b | None \<Rightarrow> b)"

text \<open>
  The call \<^verbatim>\<open>v.includes(w)\<close> on a truthy value: a string searches for the substring, an
  array for an element equal to the string; every other value has no function of that name
  and the call throws a TypeError.
\<close>

fun callIncludes :: "json \<Rightarrow> jsstring \<Rightarrow> jserror + bool" where
  "callIncludes (JStr s) w = Inr (includesStr s w)"
| "callIncludes (JArr elems props) w = Inr (List.member elems (JStr w))"
| "callIncludes v w = Inl typeError"

section \<open>The fenced JSON block\<close>

text \<open>
  \<^verbatim>\<open>[\s\S]*?\}\s*```\<close> at the start of \<open>s\<close>: the shortest text that ends with a closing
  brace after which white space and the closing fence follow. The result is that text with
  its brace.
\<close>

fun lazyBody :: "jsstring \<Rightarrow> jsstring option" where
  "lazyBody [] = None"
| "lazyBody (c # cs) =
     (if c = 125 \<and> prefix (asc ''```'') (dropWhile isSpace cs) then Some [c]
      else map_option ((#) c) (lazyBody cs))"

text \<open>
  \<^verbatim>\<open>/```json\s*(\{[\s\S]*?\})\s*```/\<close> anchored at the start of \<open>s\<close>; the result is the
  capture group, the braces included.
\<close>

definition matchJsonBlock :: "jsstring \<Rightarrow> jsstring option" where
  "matchJsonBlock s =
     (if prefix (asc ''```json'') s
      then (case dropWhile isSpace (drop 7 s) of
              [] \<Rightarrow> None
            | c # r \<Rightarrow> if c = 123 then map_option ((#) c) (lazyBody r) else None)
      else None)"

definition jsonMatch :: "jsstring \<Rightarrow> jsstring option" where
  "jsonMatch rawResponse = regexSearch matchJsonBlock rawResponse"

section \<open>Classification of the model's response\<close>

text \<open>
  Lines 159 to 164 with the fall-through of lines 200 to 211: the response is a calendar
  event when the first fenced block parses to a value whose \<^verbatim>\<open>type\<close> is the string
  \<^verbatim>\<open>calendar_event\<close> and whose \<^verbatim>\<open>eventDetails\<close> is truthy. \<^verbatim>\<open>JSON.parse\<close> is
  the parameter \<open>parse\<close>; its SyntaxError, and the TypeError of reading \<^verbatim>\<open>type\<close> from
  null, are caught by the \<^verbatim>\<open>catch\<close> of line 200.
\<close>

datatype intent = CalendarEventIntent json | IdeaText jsstring

definition classify :: "(jsstring \<Rightarrow> jserror + json) \<Rightarrow> jsstring \<Rightarrow> intent" where
  "classify parse rawResponse =
     (case jsonMatch rawResponse of
        None \<Rightarrow> IdeaText rawResponse
      | Some captured \<Rightarrow>
          if captured = [] then IdeaText rawResponse
          else (case parse captured of
                  Inl jsonParseError \<Rightarrow> IdeaText rawResponse
                | Inr JNull \<Rightarrow> IdeaText rawResponse
                | Inr parsedResponse \<Rightarrow>
                    (case field (Some parsedResponse) (asc ''eventDetails'') of
                       Some eventDetails \<Rightarrow>
                         if field (Some parsedResponse) (asc ''type'') = Some (JStr (asc ''calendar_event''))
                            \<and> truthy (Some eventDetails)
                         then CalendarEventIntent eventDetails
                         else IdeaText rawResponse
                     | None \<Rightarrow> IdeaText rawResponse)))"

section \<open>Normalisation of the event details\<close>

text \<open>
  A \<^verbatim>\<open>Date\<close> by its fields in local time (the month counted from 0). A setter stores
  its fields and carries what overflows into the next field, as \<^verbatim>\<open>MakeTime\<close> and
  \<^verbatim>\<open>MakeDay\<close> of ECMAScript do, so the fields are always those of a time of the
  calendar. The local clock is taken to run without gaps (no change to or from daylight
  saving time between the two calls).
\<close>

record jsdate =
  fullYear :: int
  month :: int
  date :: int
  hours :: int
  minutes :: int
  seconds :: int
  milliseconds :: int

definition leapYear :: "int \<Rightarrow> bool" where
  "leapYear y = (y mod 4 = 0 \<and> (y mod 100 \<noteq> 0 \<or> y mod 400 = 0))"

definition daysInMonth :: "int \<Rightarrow> int \<Rightarrow> int" where
  "daysInMonth y m =
     (if m = 1 then (if leapYear y then 29 else 28)
      else if m = 3 \<or> m = 5 \<or> m = 8 \<or> m = 10 then 30 else 31)"

text \<open>Day \<open>n\<close> of month \<open>m\<close> of year \<open>y\<close>, for any integer \<open>n\<close>, as a day of the calendar.\<close>

function carryDate :: "int \<Rightarrow> int \<Rightarrow> int \<Rightarrow> int \<times> int \<times> int" where
  "carryDate y m n =
     (if n < 1
      then (if m = 0 then carryDate (y - 1) 11 (n + daysInMonth (y - 1) 11)
            else carryDate y (m - 1) (n + daysInMonth y (m - 1)))
      else if daysInMonth y m < n
      then (if m = 11 then carryDate (y + 1) 0 (n - daysInMonth y m)
            else carryDate y (m + 1) (n - daysInMonth y m))
      else (y, m, n))"
  by pat_completeness auto
termination
  by (relation "measure (\<lambda>(y, m, n). if n < 1 then nat (33 - n) else nat n)")
    (auto simp: daysInMonth_def)

definition getDate :: "jsdate \<Rightarrow> int" where
  "getDate d = date d"

definition setDate :: "jsdate \<Rightarrow> int \<Rightarrow> jsdate" where
  "setDate d n = (case carryDate (fullYear d) (month d) n of
                    (y, m, k) \<Rightarrow> d\<lparr>fullYear := y, month := m, date := k\<rparr>)"

definition getHours :: "jsdate \<Rightarrow> int" where
  "getHours d = hours d"

text \<open>
  \<^verbatim>\<open>setHours(h, m, s, ms)\<close>: the time of day in milliseconds, its whole days carried into
  the date; \<^verbatim>\<open>setHours(h)\<close> keeps the minutes, seconds and milliseconds.
\<close>

definition setHours4 :: "jsdate \<Rightarrow> int \<Rightarrow> int \<Rightarrow> int \<Rightarrow> int \<Rightarrow> jsdate" where
  "setHours4 d h m s ms =
     (let t = ((h * 60 + m) * 60 + s) * 1000 + ms;
          r = t mod 86400000
      in setDate (d\<lparr>hours := r div 3600000, minutes := r div 60000 mod 60,
                     seconds := r div 1000 mod 60, milliseconds := r mod 1000\<rparr>)
           (date d + t div 86400000))"

definition setHours :: "jsdate \<Rightarrow> int \<Rightarrow> jsdate" where
  "setHours d h = setHours4 d h (minutes d) (seconds d) (milliseconds d)"

text \<open>Lines 174 to 179.\<close>

definition defaultStart :: "jsdate \<Rightarrow> jsdate" where
  "defaultStart today = setHours4 (setDate today (getDate today + 1)) 9 0 0 0"

definition defaultEnd :: "jsdate \<Rightarrow> jsdate" where
  "defaultEnd today = setHours (defaultStart today) (getHours (defaultStart today) + 1)"

text \<open>The created event, as the confirmation prints its \<^verbatim>\<open>summary\<close> and \<^verbatim>\<open>htmlLink\<close>.\<close>

record createdEvent =
  eventSummary :: jsstring
  eventHtmlLink :: jsstring

text \<open>
  What one call of \<^verbatim>\<open>talkAs\<close> takes from outside the repository: the outcome of the model
  call (the text of the response, or the error thrown), \<^verbatim>\<open>JSON.parse\<close>, the calendar
  service, the clock and the time zone of the process.
\<close>

record env =
  generateContent :: "jserror + jsstring"
  jsonParse :: "jsstring \<Rightarrow> jserror + json"
  createCalendarEvent :: "json option \<Rightarrow> json \<Rightarrow> jserror + createdEvent"
  today :: jsdate
  toISOString :: "jsdate \<Rightarrow> jsstring"
  currentTimeZone :: jsstring

text \<open>Line 173: one of start, end and their dateTime is missing.\<close>

definition timesMissing :: "json \<Rightarrow> bool" where
  "timesMissing eventDetails =
     (\<not> truthy (field (Some eventDetails) (asc ''start''))
      \<or> \<not> truthy (field (Some eventDetails) (asc ''end''))
      \<or> \<not> truthy (field (field (Some eventDetails) (asc ''start'')) (asc ''dateTime''))
      \<or> \<not> truthy (field (field (Some eventDetails) (asc ''end'')) (asc ''dateTime'')))"

definition timeSlot :: "jsstring \<Rightarrow> json \<Rightarrow> json" where
  "timeSlot dt tz = JObj [(asc ''dateTime'', JStr dt), (asc ''timeZone'', tz)]"

text \<open>Lines 173 to 183.\<close>

definition fillDefaults :: "env \<Rightarrow> json \<Rightarrow> json" where
  "fillDefaults e eventDetails =
     (if timesMissing eventDetails
      then (let withStart = setField eventDetails (asc ''start'')
                  (timeSlot (toISOString e (defaultStart (today e)))
                     (orElse (field (Some eventDetails) (asc ''timeZone'')) (JStr (currentTimeZone e))))
            in setField withStart (asc ''end'')
                  (timeSlot (toISOString e (defaultEnd (today e)))
                     (orElse (field (Some withStart) (asc ''timeZone'')) (JStr (currentTimeZone e)))))
      else eventDetails)"

text \<open>The template of lines 189 and 193.\<close>

definition repairDateTime :: "jsstring \<Rightarrow> jsstring" where
  "repairDateTime dt =
     substring dt 0 4 @ asc ''-'' @ substring dt 4 6 @ asc ''-'' @ substring dt 6 8 @ asc ''T''
     @ substring dt 9 11 @ asc '':'' @ substring dt 11 13 @ asc '':'' @ substring dt 13 15
     @ drop 15 dt"

text \<open>
  Lines 187 to 190 for \<open>key\<close> start, lines 191 to 194 for \<open>key\<close> end. A dateTime that is
  truthy and not a string makes \<^verbatim>\<open>includes\<close> or \<^verbatim>\<open>substring\<close> throw.
\<close>

definition repairSlot :: "jsstring \<Rightarrow> json \<Rightarrow> jserror + json" where
  "repairSlot key eventDetails =
     (case field (Some eventDetails) key of
        None \<Rightarrow> Inr eventDetails
      | Some slot \<Rightarrow>
          (case field (Some slot) (asc ''dateTime'') of
             None \<Rightarrow> Inr eventDetails
           | Some dt \<Rightarrow>
               if \<not> truthy (Some slot) \<or> \<not> truthy (Some dt) then Inr eventDetails
               else (case callIncludes dt (asc ''-'') of
                       Inl err \<Rightarrow> Inl err
                     | Inr True \<Rightarrow> Inr eventDetails
                     | Inr False \<Rightarrow>
                         (case callIncludes dt (asc '':'') of
                            Inl err \<Rightarrow> Inl err
                          | Inr True \<Rightarrow> Inr eventDetails
                          | Inr False \<Rightarrow>
                              (case dt of
                                 JStr s \<Rightarrow>
                                   Inr (setField eventDetails key
                                          (setField slot (asc ''dateTime'') (JStr (repairDateTime s))))
                               | _ \<Rightarrow> Inl typeError)))))"

text \<open>Lines 173 to 194: the defaults, then the repair of start, then the repair of end.\<close>

definition normalize :: "env \<Rightarrow> json \<Rightarrow> jserror + json" where
  "normalize e eventDetails =
     (case repairSlot (asc ''start'') (fillDefaults e eventDetails) of
        Inl err \<Rightarrow> Inl err
      | Inr repaired \<Rightarrow> repairSlot (asc ''end'') repaired)"

section \<open>talkAs\<close>

definition authorizationMessage :: jsstring where
  "authorizationMessage = asc
     ''I can help schedule that, but I need access to your Google Calendar. Please connect your Google account first by visiting /auth/google/calendar.''"

definition confirmation :: "createdEvent \<Rightarrow> jsstring" where
  "confirmation event =
     asc ''I've successfully added \"'' @ eventSummary event
     @ asc ''\" to your Google Calendar! You can view it here: '' @ eventHtmlLink event"

text \<open>The warning sign U+26A0 with its variation selector U+FE0F.\<close>

definition warningSign :: jsstring where
  "warningSign = [9888, 65039]"

text \<open>
  The prompt only reaches the model, whose answer is \<open>generateContent e\<close>. An error of the
  model call is caught at line 213 and becomes the returned text; every error thrown between
  lines 162 and 199 (by \<^verbatim>\<open>JSON.parse\<close>, by the normalisation, by the calendar service) is
  caught at line 200, and the response is then formatted as ideas.
\<close>

definition talkAs :: "env \<Rightarrow> jsstring \<Rightarrow> json option \<Rightarrow> jsstring" where
  "talkAs e persona userAuthTokens =
     (case generateContent e of
        Inl err \<Rightarrow> warningSign @ asc '' '' @ persona @ asc '' failed to respond: '' @ message err
      | Inr rawResponse \<Rightarrow>
          (case classify (jsonParse e) rawResponse of
             IdeaText t \<Rightarrow> formatResponse rawResponse
           | CalendarEventIntent eventDetails \<Rightarrow>
               if \<not> truthy userAuthTokens \<or> \<not> truthy (field userAuthTokens (asc ''access_token''))
               then authorizationMessage
               else (case normalize e eventDetails of
                       Inl err \<Rightarrow> formatResponse rawResponse
                     | Inr normalized \<Rightarrow>
                         (case createCalendarEvent e userAuthTokens normalized of
                            Inl err \<Rightarrow> formatResponse rawResponse
                          | Inr event \<Rightarrow> confirmation event))))"

section \<open>The chat route\<close>

datatype httpResponse =
    Json200 (responseSender: jsstring) (responseText: jsstring)
  | Json400 jsstring
  | Json500 (responseSender: jsstring) (responseText: jsstring)

text \<open>
  What a request leaves behind: the response, the number of calls of \<^verbatim>\<open>talkAs\<close> and the
  delays waited for, in milliseconds.
\<close>

record chatRun =
  response :: httpResponse
  calls :: nat
  waits :: "nat list"

definition MAX_RETRIES :: nat where
  "MAX_RETRIES = 3"

definition failureMarker :: jsstring where
  "failureMarker = asc ''1. Idea Name: N/A''"

text \<open>Line 289.\<close>

definition responseComplete :: "jsstring \<Rightarrow> bool" where
  "responseComplete formattedResponse =
     (includesStr formattedResponse (asc ''I've successfully added'')
      \<or> \<not> includesStr formattedResponse failureMarker)"

definition errorSender :: jsstring where
  "errorSender = warningSign @ asc '' Error''"

definition apiErrorText :: "jserror \<Rightarrow> jsstring" where
  "apiErrorText err =
     asc ''Failed to get a complete AI response after '' @ showNat MAX_RETRIES
     @ asc '' attempts due to an API error: ''
     @ (if message err \<noteq> [] then message err else asc ''Please check your server or API key.'')"

definition exhaustedText :: jsstring where
  "exhaustedText =
     asc ''Failed to get a complete AI response after '' @ showNat MAX_RETRIES
     @ asc '' attempts. Please try again or refine your request.''"

text \<open>
  The loop of lines 285 to 322. \<open>attempt n\<close> is what the call of \<^verbatim>\<open>talkAs\<close> number \<open>n\<close>
  (from 0) gives: the text it returns, or the error it throws. Every iteration that does not
  succeed adds one to \<^verbatim>\<open>retryCount\<close>, so the calls made so far are \<^verbatim>\<open>retryCount\<close>.
\<close>

function chatLoop :: "(nat \<Rightarrow> jserror + jsstring) \<Rightarrow> nat \<Rightarrow> nat list \<Rightarrow> chatRun" where
  "chatLoop attempt retryCount waited =
     (if retryCount < MAX_RETRIES
      then (case attempt retryCount of
              Inr formattedResponse \<Rightarrow>
                if responseComplete formattedResponse
                then \<lparr> response = Json200 (asc ''Ada'') formattedResponse,
                       calls = retryCount + 1, waits = waited \<rparr>
                else chatLoop attempt (retryCount + 1) (waited @ [1000 * (retryCount + 1)])
            | Inl err \<Rightarrow>
                if retryCount + 1 \<ge> MAX_RETRIES
                then \<lparr> response = Json500 errorSender (apiErrorText err),
                       calls = retryCount + 1, waits = waited \<rparr>
                else chatLoop attempt (retryCount + 1) (waited @ [1000 * (retryCount + 1)]))
      else \<lparr> response = Json500 errorSender exhaustedText, calls = retryCount, waits = waited \<rparr>)"
  by pat_completeness auto
termination
  by (relation "measure (\<lambda>(attempt, retryCount, waited). MAX_RETRIES - retryCount)") auto

text \<open>
  The handler of \<^verbatim>\<open>POST /chat\<close>: \<open>input\<close> is \<^verbatim>\<open>req.body.input\<close>, \<open>envs n\<close> the
  environment of call number \<open>n\<close> of \<^verbatim>\<open>talkAs\<close>.
\<close>

definition chat :: "(nat \<Rightarrow> env) \<Rightarrow> json option \<Rightarrow> json option \<Rightarrow> chatRun" where
  "chat envs input userTokens =
     (case input of
        Some (JStr s) \<Rightarrow>
          if s = []
          then \<lparr> response = Json400 (asc ''Invalid input provided.''), calls = 0, waits = [] \<rparr>
          else chatLoop (\<lambda>n. Inr (talkAs (envs n) (asc ''Ada'') userTokens)) 0 []
      | _ \<Rightarrow> \<lparr> response = Json400 (asc ''Invalid input provided.''), calls = 0, waits = [] \<rparr>)"

section \<open>Predicates and sample inputs of the statements\<close>

text \<open>The label occurs in \<open>s\<close>, ignoring case.\<close>

fun labelFound :: "jsstring \<Rightarrow> jsstring \<Rightarrow> bool" where
  "labelFound label [] = startsWithCI label []"
| "labelFound label (c # cs) = (startsWithCI label (c # cs) \<or> labelFound label cs)"

text \<open>The pattern of the splitter matches at no index of \<open>s\<close>.\<close>

fun noLabel :: "jsstring \<Rightarrow> bool" where
  "noLabel [] = True"
| "noLabel (c # cs) = (matchDelimiter (c # cs) = None \<and> noLabel cs)"

text \<open>An object or an array: a value that takes the assignment of a property.\<close>

fun isObject :: "json \<Rightarrow> bool" where
  "isObject (JObj props) = True"
| "isObject (JArr elems props) = True"
| "isObject v = False"

text \<open>The fields of a time of the calendar, as \<^verbatim>\<open>new Date()\<close> has them.\<close>

definition validDate :: "jsdate \<Rightarrow> bool" where
  "validDate d =
     (0 \<le> month d \<and> month d \<le> 11 \<and> 1 \<le> date d \<and> date d \<le> daysInMonth (fullYear d) (month d)
      \<and> 0 \<le> hours d \<and> hours d < 24 \<and> 0 \<le> minutes d \<and> minutes d < 60
      \<and> 0 \<le> seconds d \<and> seconds d < 60 \<and> 0 \<le> milliseconds d \<and> milliseconds d < 1000)"

text \<open>
  A sample environment: \<^verbatim>\<open>JSON.parse\<close> on the texts the samples use, a calendar service
  that accepts every event, and a process whose local time is UTC on 9 August 2025.
  \<open>sampleISO\<close> is \<^verbatim>\<open>toISOString\<close> in such a process: the fields of a time of the
  calendar (\<open>validDate\<close>, which the setters keep) as \<^verbatim>\<open>YYYY-MM-DDTHH:mm:ss.sssZ\<close>, a
  year outside 0 to 9999 with its sign and six digits.
  \<open>monthEndEnv\<close> is the same process on the last day of August.
\<close>

definition sampleJson :: jsstring where
  "sampleJson = asc ''{\"type\":\"calendar_event\",\"eventDetails\":{\"summary\":\"Lunch\"}}''"

definition sampleDetails :: json where
  "sampleDetails = JObj [(asc ''summary'', JStr (asc ''Lunch''))]"

definition sampleParse :: "jsstring \<Rightarrow> jserror + json" where
  "sampleParse s =
     (if s = sampleJson
      then Inr (JObj [(asc ''type'', JStr (asc ''calendar_event'')), (asc ''eventDetails'', sampleDetails)])
      else Inl (Error (asc ''Unexpected token a in JSON at position 1'')))"

definition pad :: "nat \<Rightarrow> int \<Rightarrow> jsstring" where
  "pad n v = replicate (n - length (showNat (nat v))) 48 @ showNat (nat v)"

definition isoYear :: "int \<Rightarrow> jsstring" where
  "isoYear y =
     (if 0 \<le> y \<and> y \<le> 9999 then pad 4 y
      else (if y < 0 then asc ''-'' else asc ''+'') @ pad 6 (abs y))"

definition sampleISO :: "jsdate \<Rightarrow> jsstring" where
  "sampleISO d =
     isoYear (fullYear d) @ asc ''-'' @ pad 2 (month d + 1) @ asc ''-'' @ pad 2 (date d) @ asc ''T''
     @ pad 2 (hours d) @ asc '':'' @ pad 2 (minutes d) @ asc '':'' @ pad 2 (seconds d) @ asc ''.''
     @ pad 3 (milliseconds d) @ asc ''Z''"

definition sampleEnv :: "jserror + jsstring \<Rightarrow> env" where
  "sampleEnv reply =
     \<lparr> generateContent = reply,
       jsonParse = sampleParse,
       createCalendarEvent =
         (\<lambda>tokens details. Inr \<lparr> eventSummary = asc ''Lunch'', eventHtmlLink = asc ''https://calendar.example/e1'' \<rparr>),
       today = \<lparr> fullYear = 2025, month = 7, date = 9, hours = 13, minutes = 5, seconds = 6,
                 milliseconds = 7 \<rparr>,
       toISOString = sampleISO,
       currentTimeZone = asc ''UTC'' \<rparr>"

definition monthEndEnv :: env where
  "monthEndEnv =
     (sampleEnv (Inr []))\<lparr>today := \<lparr> fullYear = 2025, month = 7, date = 31, hours = 23, minutes = 59,
                                      seconds = 58, milliseconds = 7 \<rparr>\<rparr>"

text \<open>
  \<^verbatim>\<open>JSON.parse\<close> of a response whose \<^verbatim>\<open>eventDetails\<close> is the string \<^verbatim>\<open>lunch\<close>.
\<close>

definition stringDetailsJson :: jsstring where
  "stringDetailsJson = asc ''{\"type\":\"calendar_event\",\"eventDetails\":\"lunch\"}''"

definition stringDetailsParse :: "jsstring \<Rightarrow> jserror + json" where
  "stringDetailsParse s =
     (if s = stringDetailsJson
      then Inr (JObj [(asc ''type'', JStr (asc ''calendar_event'')), (asc ''eventDetails'', JStr (asc ''lunch''))])
      else Inl (Error (asc ''Unexpected token a in JSON at position 1'')))"

text \<open>
  A reply in the format that the prompt of \<^verbatim>\<open>talkAs\<close> prescribes (lines 125 to 149), with
  three ideas and all eight labels in each. It is written cut at its three numbered labels:
  \<open>firstLines\<close>, \<open>secondLines\<close> and \<open>thirdLines\<close> are the texts that follow them. \<open>firstBlock\<close>,
  \<open>secondBlock\<close> and \<open>thirdBlock\<close> are the same texts on one line.
\<close>

definition firstLines :: jsstring where
  "firstLines = asc
     ''** Nest\<newline>  - **Concept:** c1\<newline>  - **Key Features:** k1\<newline>  - **Target Market:** t1\<newline>  - **Unique Value Proposition:** u1\<newline>  - **Monetization:** m1\<newline>  - **Potential Challenges/Considerations:** p1\<newline>  - **Summary:** s1\<newline>\<newline>**''"

definition secondLines :: jsstring where
  "secondLines = asc
     ''** Loop\<newline>  - **Concept:** c2\<newline>  - **Key Features:** k2\<newline>  - **Target Market:** t2\<newline>  - **Unique Value Proposition:** u2\<newline>  - **Monetization:** m2\<newline>  - **Potential Challenges/Considerations:** p2\<newline>  - **Summary:** s2\<newline>\<newline>**''"

definition thirdLines :: jsstring where
  "thirdLines = asc
     ''** Pod\<newline>  - **Concept:** c3\<newline>  - **Key Features:** k3\<newline>  - **Target Market:** t3\<newline>  - **Unique Value Proposition:** u3\<newline>  - **Monetization:** m3\<newline>  - **Potential Challenges/Considerations:** p3\<newline>  - **Summary:** s3''"

definition promptFormatReply :: jsstring where
  "promptFormatReply =
     asc ''**1. Idea Name:'' @ firstLines @ asc ''2. Idea Name:'' @ secondLines
     @ asc ''3. Idea Name:'' @ thirdLines"

definition firstBlock :: jsstring where
  "firstBlock = asc
     ''** Nest - **Concept:** c1 - **Key Features:** k1 - **Target Market:** t1 - **Unique Value Proposition:** u1 - **Monetization:** m1 - **Potential Challenges/Considerations:** p1 - **Summary:** s1 **''"

definition secondBlock :: jsstring where
  "secondBlock = asc
     ''** Loop - **Concept:** c2 - **Key Features:** k2 - **Target Market:** t2 - **Unique Value Proposition:** u2 - **Monetization:** m2 - **Potential Challenges/Considerations:** p2 - **Summary:** s2 **''"

definition thirdBlock :: jsstring where
  "thirdBlock = asc
     ''** Pod - **Concept:** c3 - **Key Features:** k3 - **Target Market:** t3 - **Unique Value Proposition:** u3 - **Monetization:** m3 - **Potential Challenges/Considerations:** p3 - **Summary:** s3''"

declare showNat.simps [simp del] chatLoop.simps [simp del] carryDate.simps [simp del]

section \<open>Strings, fields and properties\<close>

lemma includesStr_single: "includesStr s [c] \<longleftrightarrow> c \<in> set s"
  by (induction s) (auto simp: includesStr_def sublist_Cons_right)

lemma asc_dash: "asc ''-'' = [45]" and asc_colon: "asc '':'' = [58]"
  by (simp_all add: asc_def)

lemma key_distinct:
  "asc ''start'' \<noteq> asc ''end''" "asc ''end'' \<noteq> asc ''start''"
  "asc ''start'' \<noteq> asc ''timeZone''" "asc ''timeZone'' \<noteq> asc ''start''"
  "asc ''end'' \<noteq> asc ''timeZone''" "asc ''timeZone'' \<noteq> asc ''end''"
  "asc ''dateTime'' \<noteq> asc ''timeZone''" "asc ''timeZone'' \<noteq> asc ''dateTime''"
  by (simp_all add: asc_def)

lemma field_setField:
  "field (Some v) k \<noteq> None \<or> (\<exists>props. v = JObj props) \<or> (\<exists>elems props. v = JArr elems props)
   \<Longrightarrow> field (Some (setField v k x)) k' = (if k' = k then Some x else field (Some v) k')"
  by (cases v) (auto simp: update_conv')

lemma field_Some_truthy: "field (Some v) k = Some x \<Longrightarrow> truthy (Some v)"
  by (cases v) auto

lemma orElse_cases:
  "(truthy v \<longrightarrow> Some (orElse v d) = v) \<and> (\<not> truthy v \<longrightarrow> orElse v d = d)"
  by (cases v) (auto simp: orElse_def)

lemma sublist_skip_prefix:
  assumes "w \<noteq> []" "hd w \<notin> set p" "sublist w (p @ s)"
  shows "sublist w s"
  using assms
proof (induction p)
  case Nil
  then show ?case by simp
next
  case (Cons a p)
  from Cons.prems(3) have "prefix w (a # p @ s) \<or> sublist w (p @ s)"
    by (simp add: sublist_Cons_right)
  moreover have "\<not> prefix w (a # p @ s)"
    using Cons.prems(1,2) by (cases w) (auto simp: prefix_Cons)
  ultimately show ?case
    using Cons by simp
qed

section \<open>The event normaliser\<close>

lemma repairDateTime_shape:
  assumes "length y = 4" "length m = 2" "length d = 2" "length h = 2" "length mi = 2" "length s = 2"
  shows "repairDateTime (y @ m @ d @ [x] @ h @ mi @ s @ off)
         = y @ asc ''-'' @ m @ asc ''-'' @ d @ asc ''T'' @ h @ asc '':'' @ mi @ asc '':'' @ s @ off"
  using assms by (simp add: repairDateTime_def substring_def)

lemma repairSlot_string:
  assumes "field (Some eventDetails) key = Some slot"
      and "field (Some slot) (asc ''dateTime'') = Some (JStr dt)"
  shows "repairSlot key eventDetails =
          (if dt = [] \<or> 45 \<in> set dt \<or> 58 \<in> set dt then Inr eventDetails
           else Inr (setField eventDetails key (setField slot (asc ''dateTime'') (JStr (repairDateTime dt)))))"
proof -
  have "truthy (Some slot)"
    using assms(2) by (rule field_Some_truthy)
  then show ?thesis
    using assms by (auto simp: repairSlot_def asc_dash asc_colon includesStr_single split: bool.splits)
qed

lemma timesMissing_iff:
  assumes "field (Some eventDetails) (asc ''start'') = Some startSlot"
      and "field (Some startSlot) (asc ''dateTime'') = Some (JStr startTime)"
      and "field (Some eventDetails) (asc ''end'') = Some endSlot"
      and "field (Some endSlot) (asc ''dateTime'') = Some (JStr endTime)"
  shows "timesMissing eventDetails \<longleftrightarrow> startTime = [] \<or> endTime = []"
  using assms field_Some_truthy [OF assms(2)] field_Some_truthy [OF assms(4)]
  by (auto simp: timesMissing_def)

lemma carryDate_same: "1 \<le> n \<Longrightarrow> n \<le> daysInMonth y m \<Longrightarrow> carryDate y m n = (y, m, n)"
  by (subst carryDate.simps) simp

lemma daysInMonth_bounds: "28 \<le> daysInMonth y m" "daysInMonth y m \<le> 31"
  by (simp_all add: daysInMonth_def)

lemma carryDate_in_month:
  "carryDate y m n = (y', m', n') \<Longrightarrow> 1 \<le> n' \<and> n' \<le> daysInMonth y' m'"
proof (induction y m n rule: carryDate.induct)
  case (1 y m n)
  from "1.prems" show ?case
    by (subst (asm) carryDate.simps) (auto split: if_splits dest: "1.IH")
qed

lemma carryDate_next:
  "carryDate y m (daysInMonth y m + 1) = (if m = 11 then (y + 1, 0, 1) else (y, m + 1, 1))"
  using daysInMonth_bounds [of y m] daysInMonth_bounds [of "y + 1" 0] daysInMonth_bounds [of y "m + 1"]
  by (subst carryDate.simps) (simp add: carryDate_same)

lemma setDate_same:
  "1 \<le> date d \<Longrightarrow> date d \<le> daysInMonth (fullYear d) (month d) \<Longrightarrow> setDate d (date d) = d"
  by (simp add: setDate_def carryDate_same)

lemma setDate_in_month:
  "1 \<le> date (setDate d n)
   \<and> date (setDate d n) \<le> daysInMonth (fullYear (setDate d n)) (month (setDate d n))"
proof -
  obtain y m k where c: "carryDate (fullYear d) (month d) n = (y, m, k)"
    by (cases "carryDate (fullYear d) (month d) n") auto
  from carryDate_in_month [OF c] show ?thesis
    by (simp add: setDate_def c)
qed

lemma defaultStart_fields:
  "defaultStart t = (setDate t (date t + 1))\<lparr>hours := 9, minutes := 0, seconds := 0, milliseconds := 0\<rparr>"
proof -
  let ?d = "setDate t (date t + 1)"
  let ?e = "?d\<lparr>hours := 9, minutes := 0, seconds := 0, milliseconds := 0\<rparr>"
  have "setDate ?e (date ?e) = ?e"
    using setDate_in_month [of t "date t + 1"] by (intro setDate_same) simp_all
  then show ?thesis
    by (simp add: defaultStart_def setHours4_def getDate_def Let_def)
qed

lemma defaultEnd_fields: "defaultEnd t = (defaultStart t)\<lparr>hours := 10\<rparr>"
proof -
  let ?s = "defaultStart t"
  let ?e = "?s\<lparr>hours := 10\<rparr>"
  have s: "hours ?s = 9" "minutes ?s = 0" "seconds ?s = 0" "milliseconds ?s = 0"
    by (simp_all add: defaultStart_fields)
  have "1 \<le> date ?s \<and> date ?s \<le> daysInMonth (fullYear ?s) (month ?s)"
    using setDate_in_month [of t "date t + 1"] by (simp add: defaultStart_fields)
  then have same: "setDate ?e (date ?s) = ?e"
    using setDate_same [of ?e] by simp
  have "defaultEnd t = setHours4 ?s 10 0 0 0"
    by (simp add: defaultEnd_def setHours_def getHours_def s)
  also have "\<dots> = setDate (?s\<lparr>hours := 10, minutes := 0, seconds := 0, milliseconds := 0\<rparr>) (date ?s)"
    by (simp add: setHours4_def Let_def)
  also have "?s\<lparr>hours := 10, minutes := 0, seconds := 0, milliseconds := 0\<rparr> = ?e"
    by (simp add: defaultStart_fields)
  finally show ?thesis
    by (simp only: same)
qed

lemma tomorrow:
  assumes "validDate t"
  shows "setDate t (date t + 1) =
           (if date t < daysInMonth (fullYear t) (month t) then t\<lparr>date := date t + 1\<rparr>
            else if month t = 11 then t\<lparr>fullYear := fullYear t + 1, month := 0, date := 1\<rparr>
            else t\<lparr>month := month t + 1, date := 1\<rparr>)"
proof (cases "date t < daysInMonth (fullYear t) (month t)")
  case True
  with assms show ?thesis
    by (simp add: setDate_def carryDate_same validDate_def)
next
  case False
  with assms have "date t = daysInMonth (fullYear t) (month t)"
    by (simp add: validDate_def)
  then show ?thesis
    using carryDate_next [of "fullYear t" "month t"] False by (simp add: setDate_def)
qed

text \<open>The setters keep the fields those of a time of the calendar.\<close>

lemma defaultStart_valid:
  assumes "validDate t"
  shows "validDate (defaultStart t) \<and> validDate (defaultEnd t)"
proof -
  have "1 \<le> daysInMonth y m" for y m
    using daysInMonth_bounds(1) [of y m] by simp
  then have "validDate (defaultStart t)"
    using assms by (simp add: defaultStart_fields tomorrow [OF assms] validDate_def)
  then show ?thesis
    by (simp add: defaultEnd_fields validDate_def)
qed

lemma field_timeSlot_dateTime: "field (Some (timeSlot dt tz)) (asc ''dateTime'') = Some (JStr dt)"
  by (simp add: timeSlot_def)

text \<open>
  Claim C3, as the code has it. The repair step rewrites the dateTime of start or end only
  when the string holds neither a hyphen nor a colon: the result is then
  \<^verbatim>\<open>substring(0,4)-substring(4,6)-substring(6,8)Tsubstring(9,11):substring(11,13):substring(13,15)\<close>
  followed by everything from index 15 on, unchanged, so a compact time stamp gets its
  separators and keeps its offset. A string that holds a hyphen or a colon, as
  \<^verbatim>\<open>20250810T100000-0700\<close> does with its negative offset, is left as it is.
\<close>

theorem repair_rewrites_only_without_dash_and_colon:
  assumes "field (Some eventDetails) key = Some slot"
      and "field (Some slot) (asc ''dateTime'') = Some (JStr dt)"
      and "dt \<noteq> []"
  shows "(45 \<notin> set dt \<and> 58 \<notin> set dt \<longrightarrow>
            (\<exists>repaired. repairSlot key eventDetails = Inr repaired
               \<and> field (field (Some repaired) key) (asc ''dateTime'') = Some (JStr (repairDateTime dt))))
       \<and> (45 \<in> set dt \<or> 58 \<in> set dt \<longrightarrow> repairSlot key eventDetails = Inr eventDetails)
       \<and> (\<forall>y m d x h mi s off.
             dt = y @ m @ d @ [x] @ h @ mi @ s @ off \<and> length y = 4 \<and> length m = 2 \<and> length d = 2
             \<and> length h = 2 \<and> length mi = 2 \<and> length s = 2 \<longrightarrow>
             repairDateTime dt
               = y @ asc ''-'' @ m @ asc ''-'' @ d @ asc ''T'' @ h @ asc '':'' @ mi @ asc '':'' @ s @ off)"
proof (intro conjI impI allI)
  assume "45 \<notin> set dt \<and> 58 \<notin> set dt"
  then have "repairSlot key eventDetails
      = Inr (setField eventDetails key (setField slot (asc ''dateTime'') (JStr (repairDateTime dt))))"
    using repairSlot_string [OF assms(1,2)] assms(3) by simp
  moreover have "field (field (Some (setField eventDetails key
        (setField slot (asc ''dateTime'') (JStr (repairDateTime dt))))) key) (asc ''dateTime'')
      = Some (JStr (repairDateTime dt))"
    using assms(1,2) by (simp add: field_setField)
  ultimately show "\<exists>repaired. repairSlot key eventDetails = Inr repaired
      \<and> field (field (Some repaired) key) (asc ''dateTime'') = Some (JStr (repairDateTime dt))"
    by simp
next
  assume "45 \<in> set dt \<or> 58 \<in> set dt"
  then show "repairSlot key eventDetails = Inr eventDetails"
    using repairSlot_string [OF assms(1,2)] by auto
next
  fix y m d x h mi s off
  assume "dt = y @ m @ d @ [x] @ h @ mi @ s @ off \<and> length y = 4 \<and> length m = 2 \<and> length d = 2
             \<and> length h = 2 \<and> length mi = 2 \<and> length s = 2"
  then show "repairDateTime dt
      = y @ asc ''-'' @ m @ asc ''-'' @ d @ asc ''T'' @ h @ asc '':'' @ mi @ asc '':'' @ s @ off"
    using repairDateTime_shape by blast
qed

text \<open>
  The theorem at a compact start time with a positive offset: the repaired event holds
  \<^verbatim>\<open>2025-08-10T10:00:00+0700\<close>.
\<close>

theorem repair_rewrites_witness:
  "field (Some (JObj [(asc ''start'', timeSlot (asc ''20250810T100000+0700'') (JStr (asc ''Asia/Bangkok'')))]))
       (asc ''start'')
     = Some (timeSlot (asc ''20250810T100000+0700'') (JStr (asc ''Asia/Bangkok'')))
   \<and> 45 \<notin> set (asc ''20250810T100000+0700'') \<and> 58 \<notin> set (asc ''20250810T100000+0700'')
   \<and> (\<exists>repaired.
        repairSlot (asc ''start'')
          (JObj [(asc ''start'', timeSlot (asc ''20250810T100000+0700'') (JStr (asc ''Asia/Bangkok'')))])
          = Inr repaired
        \<and> field (field (Some repaired) (asc ''start'')) (asc ''dateTime'')
            = Some (JStr (asc ''2025-08-10T10:00:00+0700'')))"
proof -
  have f: "field (Some (JObj [(asc ''start'', timeSlot (asc ''20250810T100000+0700'') (JStr (asc ''Asia/Bangkok'')))]))
       (asc ''start'')
     = Some (timeSlot (asc ''20250810T100000+0700'') (JStr (asc ''Asia/Bangkok'')))"
    by simp
  have n: "asc ''20250810T100000+0700'' \<noteq> []"
    and c: "45 \<notin> set (asc ''20250810T100000+0700'') \<and> 58 \<notin> set (asc ''20250810T100000+0700'')"
    by (simp_all add: asc_def)
  have r: "repairDateTime (asc ''20250810T100000+0700'') = asc ''2025-08-10T10:00:00+0700''"
    by (simp add: repairDateTime_def substring_def asc_def)
  show ?thesis
    using repair_rewrites_only_without_dash_and_colon [OF f field_timeSlot_dateTime n] f c
    by (simp only: r) blast
qed

text \<open>
  Claim C3 as the specification states it fails: the start time \<^verbatim>\<open>20250810T100000-0700\<close>
  is not rewritten to \<^verbatim>\<open>2025-08-10T10:00:00-0700\<close>; the repair step returns the event as it
  was, because the offset holds a hyphen.
\<close>

theorem repair_negative_offset_counterexample:
  "repairSlot (asc ''start'')
     (JObj [(asc ''start'', timeSlot (asc ''20250810T100000-0700'') (JStr (asc ''America/Los_Angeles'')))])
     = Inr (JObj [(asc ''start'', timeSlot (asc ''20250810T100000-0700'') (JStr (asc ''America/Los_Angeles'')))])
   \<and> repairSlot (asc ''start'')
     (JObj [(asc ''start'', timeSlot (asc ''20250810T100000-0700'') (JStr (asc ''America/Los_Angeles'')))])
     \<noteq> Inr (JObj [(asc ''start'', timeSlot (asc ''2025-08-10T10:00:00-0700'') (JStr (asc ''America/Los_Angeles'')))])"
proof -
  have f: "field (Some (JObj [(asc ''start'', timeSlot (asc ''20250810T100000-0700'') (JStr (asc ''America/Los_Angeles'')))]))
       (asc ''start'')
     = Some (timeSlot (asc ''20250810T100000-0700'') (JStr (asc ''America/Los_Angeles'')))"
    by simp
  have c: "45 \<in> set (asc ''20250810T100000-0700'')"
    by (simp add: asc_def)
  have d: "asc ''20250810T100000-0700'' \<noteq> asc ''2025-08-10T10:00:00-0700''"
    by (simp add: asc_def)
  show ?thesis
    using repairSlot_string [OF f field_timeSlot_dateTime] c d
    by (simp add: timeSlot_def)
qed

text \<open>
  Claim C9. When start and end both carry a dateTime string that holds a hyphen or a colon,
  normalisation returns the event details as they are, whatever the clock and the time zone
  of the process; normalising its result again therefore gives the same result.
\<close>

theorem normalize_idempotent_on_iso:
  assumes "field (Some eventDetails) (asc ''start'') = Some startSlot"
      and "field (Some startSlot) (asc ''dateTime'') = Some (JStr startTime)"
      and "field (Some eventDetails) (asc ''end'') = Some endSlot"
      and "field (Some endSlot) (asc ''dateTime'') = Some (JStr endTime)"
      and "45 \<in> set startTime \<or> 58 \<in> set startTime"
      and "45 \<in> set endTime \<or> 58 \<in> set endTime"
  shows "normalize e eventDetails = Inr eventDetails
       \<and> (case normalize e eventDetails of Inl err \<Rightarrow> Inl err | Inr once \<Rightarrow> normalize e' once)
           = normalize e eventDetails"
proof -
  have ne: "startTime \<noteq> []" "endTime \<noteq> []"
    using assms(5,6) by auto
  have once: "normalize e2 eventDetails = Inr eventDetails" for e2
  proof -
    have "\<not> timesMissing eventDetails"
      using timesMissing_iff [OF assms(1-4)] ne by simp
    then have "fillDefaults e2 eventDetails = eventDetails"
      by (simp add: fillDefaults_def)
    moreover have "repairSlot (asc ''start'') eventDetails = Inr eventDetails"
      using repairSlot_string [OF assms(1,2)] assms(5) by auto
    moreover have "repairSlot (asc ''end'') eventDetails = Inr eventDetails"
      using repairSlot_string [OF assms(3,4)] assms(6) by auto
    ultimately show ?thesis
      by (simp add: normalize_def)
  qed
  show ?thesis
    by (simp add: once)
qed

text \<open>The theorem at the event of the prompt's own example.\<close>

theorem normalize_idempotent_witness:
  "(45 \<in> set (asc ''2025-08-01T14:00:00-07:00'') \<or> 58 \<in> set (asc ''2025-08-01T14:00:00-07:00''))
   \<and> (45 \<in> set (asc ''2025-08-01T15:00:00-07:00'') \<or> 58 \<in> set (asc ''2025-08-01T15:00:00-07:00''))
   \<and> normalize (sampleEnv (Inr []))
        (JObj [(asc ''summary'', JStr (asc ''Meeting with John'')),
               (asc ''start'', timeSlot (asc ''2025-08-01T14:00:00-07:00'') (JStr (asc ''America/Los_Angeles''))),
               (asc ''end'', timeSlot (asc ''2025-08-01T15:00:00-07:00'') (JStr (asc ''America/Los_Angeles'')))])
     = Inr (JObj [(asc ''summary'', JStr (asc ''Meeting with John'')),
               (asc ''start'', timeSlot (asc ''2025-08-01T14:00:00-07:00'') (JStr (asc ''America/Los_Angeles''))),
               (asc ''end'', timeSlot (asc ''2025-08-01T15:00:00-07:00'') (JStr (asc ''America/Los_Angeles'')))])"
proof -
  let ?s = "timeSlot (asc ''2025-08-01T14:00:00-07:00'') (JStr (asc ''America/Los_Angeles''))"
  let ?t = "timeSlot (asc ''2025-08-01T15:00:00-07:00'') (JStr (asc ''America/Los_Angeles''))"
  let ?ed = "JObj [(asc ''summary'', JStr (asc ''Meeting with John'')), (asc ''start'', ?s), (asc ''end'', ?t)]"
  have fs: "field (Some ?ed) (asc ''start'') = Some ?s"
    and ft: "field (Some ?ed) (asc ''end'') = Some ?t"
    by (simp_all add: asc_def)
  have a: "45 \<in> set (asc ''2025-08-01T14:00:00-07:00'') \<or> 58 \<in> set (asc ''2025-08-01T14:00:00-07:00'')"
    and b: "45 \<in> set (asc ''2025-08-01T15:00:00-07:00'') \<or> 58 \<in> set (asc ''2025-08-01T15:00:00-07:00'')"
    by (simp_all add: asc_def)
  show ?thesis
    using normalize_idempotent_on_iso [OF fs field_timeSlot_dateTime ft field_timeSlot_dateTime a b,
        of "sampleEnv (Inr [])"] a b
    by blast
qed

section \<open>Defaults\<close>

lemma replicate_two: "replicate 2 x = [x, x]"
  by (simp add: numeral_2_eq_2)

lemma sampleISO_start: "sampleISO (defaultStart (today (sampleEnv reply))) = asc ''2025-08-10T09:00:00.000Z''"
  by (simp add: sampleISO_def isoYear_def sampleEnv_def defaultStart_fields setDate_def carryDate.simps
      daysInMonth_def pad_def showNat.simps asc_def replicate_two)

lemma sampleISO_end: "sampleISO (defaultEnd (today (sampleEnv reply))) = asc ''2025-08-10T10:00:00.000Z''"
  by (simp add: sampleISO_def isoYear_def sampleEnv_def defaultEnd_fields defaultStart_fields setDate_def
      carryDate.simps daysInMonth_def pad_def showNat.simps asc_def replicate_two)

lemma monthEnd_start_fields:
  "defaultStart (today monthEndEnv)
   = \<lparr> fullYear = 2025, month = 8, date = 1, hours = 9, minutes = 0, seconds = 0, milliseconds = 0 \<rparr>"
  by (simp add: monthEndEnv_def defaultStart_fields setDate_def carryDate.simps daysInMonth_def)

lemma monthEnd_start: "sampleISO (defaultStart (today monthEndEnv)) = asc ''2025-09-01T09:00:00.000Z''"
  unfolding monthEnd_start_fields
  by (simp add: sampleISO_def isoYear_def pad_def showNat.simps asc_def replicate_two)

lemma monthEnd_end: "sampleISO (defaultEnd (today monthEndEnv)) = asc ''2025-09-01T10:00:00.000Z''"
  unfolding defaultEnd_fields monthEnd_start_fields
  by (simp add: sampleISO_def isoYear_def pad_def showNat.simps asc_def replicate_two)

lemma sampleISO_hyphen: "45 \<in> set (sampleISO d)"
  by (simp add: sampleISO_def asc_def)

lemma field_setField_object:
  "isObject v \<Longrightarrow> field (Some (setField v k x)) k' = (if k' = k then Some x else field (Some v) k')"
  by (cases v) (auto simp: update_conv')

lemma isObject_setField: "isObject v \<Longrightarrow> isObject (setField v k x)"
  by (cases v) auto

lemma normalize_primitive:
  "\<not> isObject v \<Longrightarrow> timesMissing v \<and> normalize e v = Inr v \<and> field (Some v) key = None"
  by (cases v) (simp_all add: timesMissing_def normalize_def fillDefaults_def repairSlot_def Let_def)

lemma jsonMatch_stringDetails:
  "jsonMatch (asc ''```json'' @ stringDetailsJson @ asc ''```'') = Some stringDetailsJson"
  by (simp add: jsonMatch_def matchJsonBlock_def stringDetailsJson_def asc_def isSpace_def)

text \<open>
  Claim C7, as the code has it. For event details that are an object (or an array) in which
  start, end or the dateTime of one of them is missing (absent, null, empty), normalisation
  returns the details with start and end replaced and every other property kept: each of
  the two is an object with the properties dateTime and timeZone, the dateTime of start is
  \<^verbatim>\<open>toISOString\<close> of the day after today at 09:00:00.000 local time (the first of the next
  month after the last day of a month), that of end is the same day at 10:00:00.000, one
  hour later, and the timeZone of both is the timeZone of the event details when that is
  present (truthy) and the time zone of the process otherwise. The text of
  \<^verbatim>\<open>toISOString\<close>, an ISO 8601 date, holds a hyphen. For event details that are a truthy
  value of another kind (a string, a number, \<^verbatim>\<open>true\<close>) start and end are missing, the
  two assignments of lines 181 and 182 have no effect, and normalisation returns the
  details as they are, without start and end.
\<close>

theorem normalize_supplies_defaults:
  "(isObject eventDetails \<and> timesMissing eventDetails
      \<and> 45 \<in> set (toISOString e (defaultStart (today e)))
      \<and> 45 \<in> set (toISOString e (defaultEnd (today e))) \<longrightarrow>
      (\<exists>normalized tz.
           normalize e eventDetails = Inr normalized
         \<and> field (Some normalized) (asc ''start'')
             = Some (JObj [(asc ''dateTime'', JStr (toISOString e (defaultStart (today e)))),
                           (asc ''timeZone'', tz)])
         \<and> field (Some normalized) (asc ''end'')
             = Some (JObj [(asc ''dateTime'', JStr (toISOString e (defaultEnd (today e)))),
                           (asc ''timeZone'', tz)])
         \<and> (truthy (field (Some eventDetails) (asc ''timeZone'')) \<longrightarrow>
              field (Some eventDetails) (asc ''timeZone'') = Some tz)
         \<and> (\<not> truthy (field (Some eventDetails) (asc ''timeZone'')) \<longrightarrow> tz = JStr (currentTimeZone e))
         \<and> (\<forall>key. key \<noteq> asc ''start'' \<and> key \<noteq> asc ''end'' \<longrightarrow>
              field (Some normalized) key = field (Some eventDetails) key)))
   \<and> (validDate (today e) \<longrightarrow>
        defaultStart (today e)
          = (if date (today e) < daysInMonth (fullYear (today e)) (month (today e))
             then (today e)\<lparr>date := date (today e) + 1,
                    hours := 9, minutes := 0, seconds := 0, milliseconds := 0\<rparr>
             else if month (today e) = 11
             then (today e)\<lparr>fullYear := fullYear (today e) + 1, month := 0, date := 1,
                    hours := 9, minutes := 0, seconds := 0, milliseconds := 0\<rparr>
             else (today e)\<lparr>month := month (today e) + 1, date := 1,
                    hours := 9, minutes := 0, seconds := 0, milliseconds := 0\<rparr>))
   \<and> defaultEnd (today e) = (defaultStart (today e))\<lparr>hours := 10\<rparr>
   \<and> (\<not> isObject eventDetails \<and> truthy (Some eventDetails) \<longrightarrow>
        timesMissing eventDetails
      \<and> normalize e eventDetails = Inr eventDetails
      \<and> field (Some eventDetails) (asc ''start'') = None
      \<and> field (Some eventDetails) (asc ''end'') = None)"
proof (intro conjI impI)
  assume h: "isObject eventDetails \<and> timesMissing eventDetails
      \<and> 45 \<in> set (toISOString e (defaultStart (today e)))
      \<and> 45 \<in> set (toISOString e (defaultEnd (today e)))"
  define tz where "tz = orElse (field (Some eventDetails) (asc ''timeZone'')) (JStr (currentTimeZone e))"
  define s where "s = JObj [(asc ''dateTime'', JStr (toISOString e (defaultStart (today e)))),
                            (asc ''timeZone'', tz)]"
  define t where "t = JObj [(asc ''dateTime'', JStr (toISOString e (defaultEnd (today e)))),
                            (asc ''timeZone'', tz)]"
  define withStart where "withStart = setField eventDetails (asc ''start'') s"
  define filled where "filled = setField withStart (asc ''end'') t"
  have o: "isObject eventDetails" and o': "isObject withStart"
    using h by (simp_all add: withStart_def isObject_setField)
  have fill: "fillDefaults e eventDetails = filled"
    using h
    by (simp add: fillDefaults_def filled_def withStart_def s_def t_def tz_def timeSlot_def Let_def
        field_setField_object [OF o] key_distinct)
  have fs: "field (Some filled) (asc ''start'') = Some s"
    and ft: "field (Some filled) (asc ''end'') = Some t"
    by (simp_all add: filled_def withStart_def field_setField_object [OF o'[unfolded withStart_def]]
        field_setField_object [OF o] key_distinct)
  have other: "field (Some filled) key = field (Some eventDetails) key"
    if "key \<noteq> asc ''start'' \<and> key \<noteq> asc ''end''" for key
    using that
    by (simp add: filled_def withStart_def field_setField_object [OF o'[unfolded withStart_def]]
        field_setField_object [OF o])
  have ds: "field (Some s) (asc ''dateTime'') = Some (JStr (toISOString e (defaultStart (today e))))"
    and dt: "field (Some t) (asc ''dateTime'') = Some (JStr (toISOString e (defaultEnd (today e))))"
    by (simp_all add: s_def t_def)
  have "repairSlot (asc ''start'') filled = Inr filled"
    using repairSlot_string [OF fs ds] h by auto
  moreover have "repairSlot (asc ''end'') filled = Inr filled"
    using repairSlot_string [OF ft dt] h by auto
  ultimately have n: "normalize e eventDetails = Inr filled"
    by (simp add: normalize_def fill)
  have "normalize e eventDetails = Inr filled
         \<and> field (Some filled) (asc ''start'')
             = Some (JObj [(asc ''dateTime'', JStr (toISOString e (defaultStart (today e)))),
                           (asc ''timeZone'', tz)])
         \<and> field (Some filled) (asc ''end'')
             = Some (JObj [(asc ''dateTime'', JStr (toISOString e (defaultEnd (today e)))),
                           (asc ''timeZone'', tz)])
         \<and> (truthy (field (Some eventDetails) (asc ''timeZone'')) \<longrightarrow>
              field (Some eventDetails) (asc ''timeZone'') = Some tz)
         \<and> (\<not> truthy (field (Some eventDetails) (asc ''timeZone'')) \<longrightarrow> tz = JStr (currentTimeZone e))
         \<and> (\<forall>key. key \<noteq> asc ''start'' \<and> key \<noteq> asc ''end'' \<longrightarrow>
              field (Some filled) key = field (Some eventDetails) key)"
    using n fs ft other
      orElse_cases [of "field (Some eventDetails) (asc ''timeZone'')" "JStr (currentTimeZone e)"]
    by (simp add: s_def t_def tz_def)
  then show "\<exists>normalized tz.
           normalize e eventDetails = Inr normalized
         \<and> field (Some normalized) (asc ''start'')
             = Some (JObj [(asc ''dateTime'', JStr (toISOString e (defaultStart (today e)))),
                           (asc ''timeZone'', tz)])
         \<and> field (Some normalized) (asc ''end'')
             = Some (JObj [(asc ''dateTime'', JStr (toISOString e (defaultEnd (today e)))),
                           (asc ''timeZone'', tz)])
         \<and> (truthy (field (Some eventDetails) (asc ''timeZone'')) \<longrightarrow>
              field (Some eventDetails) (asc ''timeZone'') = Some tz)
         \<and> (\<not> truthy (field (Some eventDetails) (asc ''timeZone'')) \<longrightarrow> tz = JStr (currentTimeZone e))
         \<and> (\<forall>key. key \<noteq> asc ''start'' \<and> key \<noteq> asc ''end'' \<longrightarrow>
              field (Some normalized) key = field (Some eventDetails) key)"
    by (intro exI [of _ filled] exI [of _ tz])
next
  assume "validDate (today e)"
  then show "defaultStart (today e)
          = (if date (today e) < daysInMonth (fullYear (today e)) (month (today e))
             then (today e)\<lparr>date := date (today e) + 1,
                    hours := 9, minutes := 0, seconds := 0, milliseconds := 0\<rparr>
             else if month (today e) = 11
             then (today e)\<lparr>fullYear := fullYear (today e) + 1, month := 0, date := 1,
                    hours := 9, minutes := 0, seconds := 0, milliseconds := 0\<rparr>
             else (today e)\<lparr>month := month (today e) + 1, date := 1,
                    hours := 9, minutes := 0, seconds := 0, milliseconds := 0\<rparr>)"
    by (simp add: defaultStart_fields tomorrow)
next
  show "defaultEnd (today e) = (defaultStart (today e))\<lparr>hours := 10\<rparr>"
    by (rule defaultEnd_fields)
next
  assume p: "\<not> isObject eventDetails \<and> truthy (Some eventDetails)"
  from p show "timesMissing eventDetails"
    using normalize_primitive by blast
  from p show "normalize e eventDetails = Inr eventDetails"
    using normalize_primitive by blast
  from p show "field (Some eventDetails) (asc ''start'') = None"
    using normalize_primitive by blast
  from p show "field (Some eventDetails) (asc ''end'') = None"
    using normalize_primitive by blast
qed

text \<open>
  The theorem at event details with a summary only, on 31 August 2025 in a process whose
  time zone is UTC: start and end are 1 September, 09:00 and 10:00, in UTC, and the summary
  is kept. At the string \<^verbatim>\<open>Team sync\<close> nothing is supplied.
\<close>

theorem normalize_supplies_defaults_witness:
  "isObject sampleDetails \<and> timesMissing sampleDetails
   \<and> 45 \<in> set (toISOString monthEndEnv (defaultStart (today monthEndEnv)))
   \<and> 45 \<in> set (toISOString monthEndEnv (defaultEnd (today monthEndEnv)))
   \<and> validDate (today monthEndEnv)
   \<and> (\<exists>normalized.
         normalize monthEndEnv sampleDetails = Inr normalized
       \<and> field (Some normalized) (asc ''start'')
           = Some (JObj [(asc ''dateTime'', JStr (asc ''2025-09-01T09:00:00.000Z'')),
                         (asc ''timeZone'', JStr (asc ''UTC''))])
       \<and> field (Some normalized) (asc ''end'')
           = Some (JObj [(asc ''dateTime'', JStr (asc ''2025-09-01T10:00:00.000Z'')),
                         (asc ''timeZone'', JStr (asc ''UTC''))])
       \<and> field (Some normalized) (asc ''summary'') = Some (JStr (asc ''Lunch'')))
   \<and> defaultStart (today monthEndEnv)
       = \<lparr> fullYear = 2025, month = 8, date = 1, hours = 9, minutes = 0, seconds = 0,
           milliseconds = 0 \<rparr>
   \<and> \<not> isObject (JStr (asc ''Team sync'')) \<and> truthy (Some (JStr (asc ''Team sync'')))
   \<and> normalize monthEndEnv (JStr (asc ''Team sync'')) = Inr (JStr (asc ''Team sync''))"
proof -
  note obj = normalize_supplies_defaults [of sampleDetails monthEndEnv]
  note str = normalize_supplies_defaults [of "JStr (asc ''Team sync'')" monthEndEnv]
  have o: "isObject sampleDetails"
    by (simp add: sampleDetails_def)
  have m: "timesMissing sampleDetails"
    by (simp add: timesMissing_def sampleDetails_def asc_def)
  have iso: "toISOString monthEndEnv = sampleISO"
    and tz: "currentTimeZone monthEndEnv = asc ''UTC''"
    by (simp_all add: monthEndEnv_def sampleEnv_def)
  have a: "45 \<in> set (toISOString monthEndEnv (defaultStart (today monthEndEnv)))"
    and b: "45 \<in> set (toISOString monthEndEnv (defaultEnd (today monthEndEnv)))"
    by (simp_all add: iso sampleISO_hyphen)
  have v: "validDate (today monthEndEnv)"
    by (simp add: validDate_def monthEndEnv_def daysInMonth_def)
  have nz: "\<not> truthy (field (Some sampleDetails) (asc ''timeZone''))"
    by (simp add: sampleDetails_def asc_def)
  have su: "field (Some sampleDetails) (asc ''summary'') = Some (JStr (asc ''Lunch''))"
    by (simp add: sampleDetails_def)
  have k: "asc ''summary'' \<noteq> asc ''start'' \<and> asc ''summary'' \<noteq> asc ''end''"
    by (simp add: asc_def)
  from mp [OF conjunct1 [OF obj]] o m a b obtain normalized tz where
    n: "normalize monthEndEnv sampleDetails = Inr normalized"
    and s: "field (Some normalized) (asc ''start'')
             = Some (JObj [(asc ''dateTime'', JStr (toISOString monthEndEnv (defaultStart (today monthEndEnv)))),
                           (asc ''timeZone'', tz)])"
    and t: "field (Some normalized) (asc ''end'')
             = Some (JObj [(asc ''dateTime'', JStr (toISOString monthEndEnv (defaultEnd (today monthEndEnv)))),
                           (asc ''timeZone'', tz)])"
    and z: "\<not> truthy (field (Some sampleDetails) (asc ''timeZone'')) \<longrightarrow> tz = JStr (currentTimeZone monthEndEnv)"
    and r: "\<forall>key. key \<noteq> asc ''start'' \<and> key \<noteq> asc ''end'' \<longrightarrow>
              field (Some normalized) key = field (Some sampleDetails) key"
    by blast
  from z nz have tzv: "tz = JStr (asc ''UTC'')"
    by (simp add: tz)
  from r k su have keep: "field (Some normalized) (asc ''summary'') = Some (JStr (asc ''Lunch''))"
    by simp
  have first: "\<exists>normalized.
         normalize monthEndEnv sampleDetails = Inr normalized
       \<and> field (Some normalized) (asc ''start'')
           = Some (JObj [(asc ''dateTime'', JStr (asc ''2025-09-01T09:00:00.000Z'')),
                         (asc ''timeZone'', JStr (asc ''UTC''))])
       \<and> field (Some normalized) (asc ''end'')
           = Some (JObj [(asc ''dateTime'', JStr (asc ''2025-09-01T10:00:00.000Z'')),
                         (asc ''timeZone'', JStr (asc ''UTC''))])
       \<and> field (Some normalized) (asc ''summary'') = Some (JStr (asc ''Lunch''))"
    using n s t keep unfolding tzv iso monthEnd_start monthEnd_end by blast
  have p: "\<not> isObject (JStr (asc ''Team sync''))" "truthy (Some (JStr (asc ''Team sync'')))"
    by (simp_all add: asc_def)
  from conjunct2 [OF conjunct2 [OF conjunct2 [OF str]]] p
  have last: "normalize monthEndEnv (JStr (asc ''Team sync'')) = Inr (JStr (asc ''Team sync''))"
    by blast
  show ?thesis
    using o m a b v first monthEnd_start_fields p last by blast
qed

text \<open>
  Claim C7 as the specification states it fails: a response whose \<^verbatim>\<open>eventDetails\<close> is
  the string \<^verbatim>\<open>lunch\<close> is classified as a calendar event, start and end are absent,
  and normalisation supplies neither: the details go to the calendar service as they are.
\<close>

theorem normalize_string_details_counterexample:
  "classify stringDetailsParse (asc ''```json'' @ stringDetailsJson @ asc ''```'')
     = CalendarEventIntent (JStr (asc ''lunch''))
   \<and> timesMissing (JStr (asc ''lunch''))
   \<and> normalize (sampleEnv (Inr [])) (JStr (asc ''lunch'')) = Inr (JStr (asc ''lunch''))
   \<and> field (Some (JStr (asc ''lunch''))) (asc ''start'') = None
   \<and> field (Some (JStr (asc ''lunch''))) (asc ''end'') = None"
proof -
  have "stringDetailsJson \<noteq> []"
    by (simp add: stringDetailsJson_def asc_def)
  moreover have "truthy (Some (JStr (asc ''lunch'')))"
    by (simp add: asc_def)
  moreover have "asc ''type'' \<noteq> asc ''eventDetails''"
    by (simp add: asc_def)
  ultimately have "classify stringDetailsParse (asc ''```json'' @ stringDetailsJson @ asc ''```'')
     = CalendarEventIntent (JStr (asc ''lunch''))"
    by (simp add: classify_def jsonMatch_stringDetails stringDetailsParse_def)
  then show ?thesis
    by (simp add: normalize_primitive)
qed

section \<open>The chat route\<close>

lemma failureMarker_hd: "failureMarker \<noteq> []" "hd failureMarker = 49"
  by (simp_all add: failureMarker_def asc_def)

lemma authorizationMessage_no_marker: "\<not> includesStr authorizationMessage failureMarker"
proof
  assume "includesStr authorizationMessage failureMarker"
  then have "set failureMarker \<subseteq> set authorizationMessage"
    by (simp add: includesStr_def set_mono_sublist)
  moreover have "49 \<in> set failureMarker"
    by (simp add: failureMarker_def asc_def)
  moreover have "49 \<notin> set authorizationMessage"
    by (simp add: authorizationMessage_def asc_def)
  ultimately show False by blast
qed

lemma chatLoop_first_success:
  "attempt 0 = Inr formattedResponse \<Longrightarrow> responseComplete formattedResponse \<Longrightarrow>
   chatLoop attempt 0 [] = \<lparr> response = Json200 (asc ''Ada'') formattedResponse, calls = 1, waits = [] \<rparr>"
  by (subst chatLoop.simps) (simp add: MAX_RETRIES_def)

text \<open>
  Claim C5. When the response is classified as a calendar event and the user's tokens are
  missing or hold no (truthy) access_token, \<^verbatim>\<open>talkAs\<close> returns the authorisation message;
  the message does not hold the failure marker, so the first iteration of the loop succeeds:
  one call, no delay, a 200 response with that message. With a truthy access_token nothing
  else is asked before the event is created: whenever normalisation returns, the outcome of
  \<^verbatim>\<open>talkAs\<close> is that of the calendar service.
\<close>

theorem missing_authorization_ends_in_success:
  assumes "generateContent (envs 0) = Inr rawResponse"
      and "classify (jsonParse (envs 0)) rawResponse = CalendarEventIntent eventDetails"
      and "input = Some (JStr s)"
      and "s \<noteq> []"
  shows "(\<not> truthy userTokens \<or> \<not> truthy (field userTokens (asc ''access_token'')) \<longrightarrow>
            talkAs (envs 0) (asc ''Ada'') userTokens = authorizationMessage
          \<and> chat envs input userTokens
              = \<lparr> response = Json200 (asc ''Ada'') authorizationMessage, calls = 1, waits = [] \<rparr>)
       \<and> \<not> includesStr authorizationMessage failureMarker
       \<and> responseComplete authorizationMessage
       \<and> (truthy userTokens \<and> truthy (field userTokens (asc ''access_token'')) \<longrightarrow>
            (\<forall>normalized. normalize (envs 0) eventDetails = Inr normalized \<longrightarrow>
               talkAs (envs 0) (asc ''Ada'') userTokens
                 = (case createCalendarEvent (envs 0) userTokens normalized of
                      Inl err \<Rightarrow> formatResponse rawResponse
                    | Inr event \<Rightarrow> confirmation event)))"
proof (intro conjI impI allI)
  assume missing: "\<not> truthy userTokens \<or> \<not> truthy (field userTokens (asc ''access_token''))"
  then show talk: "talkAs (envs 0) (asc ''Ada'') userTokens = authorizationMessage"
    using assms(1,2) by (auto simp: talkAs_def)
  have "responseComplete authorizationMessage"
    by (simp add: responseComplete_def authorizationMessage_no_marker)
  then show "chat envs input userTokens
      = \<lparr> response = Json200 (asc ''Ada'') authorizationMessage, calls = 1, waits = [] \<rparr>"
    using assms(3,4) talk by (simp add: chat_def chatLoop_first_success)
next
  show "\<not> includesStr authorizationMessage failureMarker"
    by (rule authorizationMessage_no_marker)
next
  show "responseComplete authorizationMessage"
    by (simp add: responseComplete_def authorizationMessage_no_marker)
next
  fix normalized
  assume "truthy userTokens \<and> truthy (field userTokens (asc ''access_token''))"
    and "normalize (envs 0) eventDetails = Inr normalized"
  then show "talkAs (envs 0) (asc ''Ada'') userTokens
      = (case createCalendarEvent (envs 0) userTokens normalized of
           Inl err \<Rightarrow> formatResponse rawResponse
         | Inr event \<Rightarrow> confirmation event)"
    using assms(1,2) by (simp add: talkAs_def)
qed

lemma jsonMatch_sample: "jsonMatch (asc ''```json'' @ sampleJson @ asc ''```'') = Some sampleJson"
  by (simp add: jsonMatch_def matchJsonBlock_def sampleJson_def asc_def isSpace_def)

lemma classify_sample:
  "classify sampleParse (asc ''```json'' @ sampleJson @ asc ''```'') = CalendarEventIntent sampleDetails"
proof -
  have "sampleJson \<noteq> []"
    by (simp add: sampleJson_def asc_def)
  moreover have "truthy (Some sampleDetails)"
    by (simp add: sampleDetails_def)
  moreover have "asc ''type'' \<noteq> asc ''eventDetails''"
    by (simp add: asc_def)
  ultimately show ?thesis
    by (simp add: classify_def jsonMatch_sample sampleParse_def)
qed

lemma normalize_sample:
  "normalize (sampleEnv reply) sampleDetails
   = Inr (JObj [(asc ''summary'', JStr (asc ''Lunch'')),
                (asc ''start'', timeSlot (asc ''2025-08-10T09:00:00.000Z'') (JStr (asc ''UTC''))),
                (asc ''end'', timeSlot (asc ''2025-08-10T10:00:00.000Z'') (JStr (asc ''UTC'')))])"
proof -
  let ?s = "timeSlot (asc ''2025-08-10T09:00:00.000Z'') (JStr (asc ''UTC''))"
  let ?t = "timeSlot (asc ''2025-08-10T10:00:00.000Z'') (JStr (asc ''UTC''))"
  let ?filled = "JObj [(asc ''summary'', JStr (asc ''Lunch'')), (asc ''start'', ?s), (asc ''end'', ?t)]"
  have k: "asc ''summary'' \<noteq> asc ''start''" "asc ''summary'' \<noteq> asc ''end''"
    "asc ''summary'' \<noteq> asc ''timeZone''"
    by (simp_all add: asc_def)
  have m: "timesMissing sampleDetails"
    using k by (simp add: timesMissing_def sampleDetails_def)
  have iso: "toISOString (sampleEnv reply) = sampleISO"
    and tz: "currentTimeZone (sampleEnv reply) = asc ''UTC''"
    by (simp_all add: sampleEnv_def)
  have "fillDefaults (sampleEnv reply) sampleDetails = ?filled"
    using m k
    by (simp add: fillDefaults_def iso tz sampleISO_start sampleISO_end sampleDetails_def orElse_def
        key_distinct)
  moreover have fs: "field (Some ?filled) (asc ''start'') = Some ?s"
    and ft: "field (Some ?filled) (asc ''end'') = Some ?t"
    using k by (simp_all add: key_distinct)
  have "45 \<in> set (asc ''2025-08-10T09:00:00.000Z'')" "45 \<in> set (asc ''2025-08-10T10:00:00.000Z'')"
    by (simp_all add: asc_def)
  then have "repairSlot (asc ''start'') ?filled = Inr ?filled"
    and "repairSlot (asc ''end'') ?filled = Inr ?filled"
    using repairSlot_string [OF fs field_timeSlot_dateTime]
      repairSlot_string [OF ft field_timeSlot_dateTime]
    by simp_all
  ultimately show ?thesis
    by (simp add: normalize_def)
qed

text \<open>
  The theorem at the sample event, once with no tokens and once with an access token: the
  first request is answered with the authorisation message after one call, the second
  reaches the calendar service.
\<close>

theorem missing_authorization_witness:
  "classify (jsonParse (sampleEnv (Inr (asc ''```json'' @ sampleJson @ asc ''```''))))
       (asc ''```json'' @ sampleJson @ asc ''```'')
     = CalendarEventIntent sampleDetails
   \<and> \<not> truthy None
   \<and> chat (\<lambda>n. sampleEnv (Inr (asc ''```json'' @ sampleJson @ asc ''```'')))
        (Some (JStr (asc ''Schedule lunch with Sam tomorrow at noon''))) None
     = \<lparr> response = Json200 (asc ''Ada'') authorizationMessage, calls = 1, waits = [] \<rparr>
   \<and> truthy (field (Some (JObj [(asc ''access_token'', JStr (asc ''ya29.token''))])) (asc ''access_token''))
   \<and> talkAs (sampleEnv (Inr (asc ''```json'' @ sampleJson @ asc ''```''))) (asc ''Ada'')
        (Some (JObj [(asc ''access_token'', JStr (asc ''ya29.token''))]))
     = confirmation \<lparr> eventSummary = asc ''Lunch'', eventHtmlLink = asc ''https://calendar.example/e1'' \<rparr>"
proof -
  let ?raw = "asc ''```json'' @ sampleJson @ asc ''```''"
  let ?envs = "\<lambda>n::nat. sampleEnv (Inr ?raw)"
  let ?tokens = "Some (JObj [(asc ''access_token'', JStr (asc ''ya29.token''))])"
  have g: "generateContent (?envs 0) = Inr ?raw"
    by (simp add: sampleEnv_def)
  have c: "classify (jsonParse (?envs 0)) ?raw = CalendarEventIntent sampleDetails"
    by (simp add: sampleEnv_def classify_sample)
  have i: "Some (JStr (asc ''Schedule lunch with Sam tomorrow at noon''))
      = Some (JStr (asc ''Schedule lunch with Sam tomorrow at noon''))"
    and n: "asc ''Schedule lunch with Sam tomorrow at noon'' \<noteq> []"
    by (simp_all add: asc_def)
  have t: "truthy ?tokens \<and> truthy (field ?tokens (asc ''access_token''))"
    by (simp add: asc_def)
  obtain normalized where nz: "normalize (?envs 0) sampleDetails = Inr normalized"
    using normalize_sample by blast
  have ev: "createCalendarEvent (?envs 0) ?tokens normalized
      = Inr \<lparr> eventSummary = asc ''Lunch'', eventHtmlLink = asc ''https://calendar.example/e1'' \<rparr>"
    by (simp add: sampleEnv_def)
  have none: "talkAs (?envs 0) (asc ''Ada'') None = authorizationMessage
      \<and> chat ?envs (Some (JStr (asc ''Schedule lunch with Sam tomorrow at noon''))) None
          = \<lparr> response = Json200 (asc ''Ada'') authorizationMessage, calls = 1, waits = [] \<rparr>"
    using missing_authorization_ends_in_success [OF g c i n, of None] by simp
  have some: "talkAs (?envs 0) (asc ''Ada'') ?tokens
      = confirmation \<lparr> eventSummary = asc ''Lunch'', eventHtmlLink = asc ''https://calendar.example/e1'' \<rparr>"
    using missing_authorization_ends_in_success [OF g c i n, of ?tokens] t nz ev by simp
  show ?thesis
    using c none some t by simp
qed

section \<open>The fields of an idea\<close>

lemma matchField_labelFound: "regexSearch (matchField label nextLabel) s = Some captured \<Longrightarrow> labelFound label s"
  by (induction s) (auto simp: matchField_def split: option.splits if_splits)

lemma matchSummary_labelFound: "regexSearch matchSummary s = Some captured \<Longrightarrow> labelFound (asc ''summary:'') s"
  by (induction s) (auto simp: matchSummary_def split: option.splits if_splits)

lemma labelFound_canonical: "map canonicalize a = map canonicalize b \<Longrightarrow> labelFound a s = labelFound b s"
  by (induction s) (simp_all add: startsWithCI_def)

lemma orNA_None: "m = None \<Longrightarrow> orNA m = asc ''N/A''"
  by (simp add: orNA_def)

lemma not_found_None: "\<not> labelFound label s \<Longrightarrow> regexSearch (matchField label nextLabel) s = None"
  using matchField_labelFound by fastforce

section \<open>Errors of the model call\<close>

lemma talkAs_model_error:
  "generateContent e = Inl err \<Longrightarrow>
   talkAs e persona userAuthTokens = warningSign @ asc '' '' @ persona @ asc '' failed to respond: '' @ message err"
  by (simp add: talkAs_def)

lemma failure_text_complete:
  assumes "\<not> includesStr (message err) failureMarker"
  shows "responseComplete (warningSign @ asc '' '' @ asc ''Ada'' @ asc '' failed to respond: '' @ message err)"
proof -
  have "49 \<notin> set (warningSign @ asc '' '' @ asc ''Ada'' @ asc '' failed to respond: '')"
    by (simp add: warningSign_def asc_def)
  then have "sublist failureMarker ((warningSign @ asc '' '' @ asc ''Ada'' @ asc '' failed to respond: '') @ message err)
      \<Longrightarrow> sublist failureMarker (message err)"
    using sublist_skip_prefix [OF failureMarker_hd(1)] failureMarker_hd(2) by metis
  then show ?thesis
    using assms by (auto simp: responseComplete_def includesStr_def)
qed

text \<open>
  Claim C1 on the code. An error thrown by the model call never reaches the loop of the chat
  route: \<^verbatim>\<open>talkAs\<close> catches it and returns a text, which passes the test of line 289
  unless the error's message holds the failure marker. The route answers 200 with that text
  after one call, without a retry and without a delay. An error thrown by the calendar
  service is caught at line 200, and \<^verbatim>\<open>talkAs\<close> returns the response formatted as ideas.
\<close>

theorem model_error_is_answered_without_retry:
  "(generateContent (envs 0) = Inl err \<and> \<not> includesStr (message err) failureMarker
      \<and> input = Some (JStr s) \<and> s \<noteq> [] \<longrightarrow>
      chat envs input userTokens
        = \<lparr> response = Json200 (asc ''Ada'')
              (warningSign @ asc '' '' @ asc ''Ada'' @ asc '' failed to respond: '' @ message err),
            calls = 1, waits = [] \<rparr>)
   \<and> (generateContent e = Inr rawResponse
      \<and> classify (jsonParse e) rawResponse = CalendarEventIntent eventDetails
      \<and> truthy userTokens \<and> truthy (field userTokens (asc ''access_token''))
      \<and> normalize e eventDetails = Inr normalized
      \<and> createCalendarEvent e userTokens normalized = Inl err \<longrightarrow>
      talkAs e persona userTokens = formatResponse rawResponse)"
proof (intro conjI impI)
  assume a: "generateContent (envs 0) = Inl err \<and> \<not> includesStr (message err) failureMarker
      \<and> input = Some (JStr s) \<and> s \<noteq> []"
  then have "talkAs (envs 0) (asc ''Ada'') userTokens
      = warningSign @ asc '' '' @ asc ''Ada'' @ asc '' failed to respond: '' @ message err"
    by (simp add: talkAs_model_error)
  then show "chat envs input userTokens
      = \<lparr> response = Json200 (asc ''Ada'')
            (warningSign @ asc '' '' @ asc ''Ada'' @ asc '' failed to respond: '' @ message err),
          calls = 1, waits = [] \<rparr>"
    using a failure_text_complete [of err] by (simp add: chat_def chatLoop_first_success)
next
  assume "generateContent e = Inr rawResponse
      \<and> classify (jsonParse e) rawResponse = CalendarEventIntent eventDetails
      \<and> truthy userTokens \<and> truthy (field userTokens (asc ''access_token''))
      \<and> normalize e eventDetails = Inr normalized
      \<and> createCalendarEvent e userTokens normalized = Inl err"
  then show "talkAs e persona userTokens = formatResponse rawResponse"
    by (simp add: talkAs_def)
qed

text \<open>The theorem at a model call that fails with \<^verbatim>\<open>fetch failed\<close> on every attempt.\<close>

theorem model_error_witness:
  "generateContent (sampleEnv (Inl (Error (asc ''fetch failed'')))) = Inl (Error (asc ''fetch failed''))
   \<and> \<not> includesStr (message (Error (asc ''fetch failed''))) failureMarker
   \<and> chat (\<lambda>n. sampleEnv (Inl (Error (asc ''fetch failed'')))) (Some (JStr (asc ''three ideas please''))) None
     = \<lparr> response = Json200 (asc ''Ada'') (warningSign @ asc '' Ada failed to respond: fetch failed''),
         calls = 1, waits = [] \<rparr>"
proof -
  have g: "generateContent (sampleEnv (Inl (Error (asc ''fetch failed'')))) = Inl (Error (asc ''fetch failed''))"
    by (simp add: sampleEnv_def)
  have m: "\<not> includesStr (message (Error (asc ''fetch failed''))) failureMarker"
  proof
    assume "includesStr (message (Error (asc ''fetch failed''))) failureMarker"
    then have "length failureMarker \<le> length (asc ''fetch failed'')"
      by (simp add: includesStr_def sublist_length_le)
    then show False
      by (simp add: failureMarker_def asc_def)
  qed
  have n: "asc ''three ideas please'' \<noteq> []"
    by (simp add: asc_def)
  have t: "asc '' '' @ asc ''Ada'' @ asc '' failed to respond: '' @ asc ''fetch failed''
      = asc '' Ada failed to respond: fetch failed''"
    by (simp add: asc_def)
  show ?thesis
    using model_error_is_answered_without_retry
      [of "\<lambda>n. sampleEnv (Inl (Error (asc ''fetch failed'')))" "Error (asc ''fetch failed'')"
        "Some (JStr (asc ''three ideas please''))" "asc ''three ideas please''" None] g m n
    by (simp add: t)
qed

section \<open>The first fenced block\<close>

lemma regexSearch_Some:
  "regexSearch m s = Some r \<Longrightarrow>
   \<exists>pre post. s = pre @ post \<and> m post = Some r \<and> (\<forall>k<length pre. m (drop k s) = None)"
proof (induction s)
  case Nil
  then show ?case by simp
next
  case (Cons c cs)
  show ?case
  proof (cases "m (c # cs)")
    case (Some r')
    with Cons.prems have "(c # cs) = [] @ (c # cs) \<and> m (c # cs) = Some r
        \<and> (\<forall>k<length ([]::jsstring). m (drop k (c # cs)) = None)"
      by simp
    then show ?thesis by blast
  next
    case None
    with Cons obtain pre post where p: "cs = pre @ post" "m post = Some r"
        "\<forall>k<length pre. m (drop k cs) = None"
      by auto
    have "\<forall>k<length (c # pre). m (drop k (c # cs)) = None"
    proof (intro allI impI)
      fix k assume "k < length (c # pre)"
      then show "m (drop k (c # cs)) = None"
        using None p(3) by (cases k) auto
    qed
    with p(1,2) have "c # cs = (c # pre) @ post \<and> m post = Some r
        \<and> (\<forall>k<length (c # pre). m (drop k (c # cs)) = None)"
      by simp
    then show ?thesis by blast
  qed
qed

lemma regexSearch_Some_suffix: "regexSearch m s = Some r \<Longrightarrow> \<exists>pre post. s = pre @ post \<and> m post = Some r"
proof -
  assume "regexSearch m s = Some r"
  from regexSearch_Some [OF this] obtain pre post where "s = pre @ post \<and> m post = Some r"
    by (elim exE conjE) simp
  then show ?thesis by (intro exI)
qed

lemma regexSearch_complete: "m post \<noteq> None \<Longrightarrow> regexSearch m (pre @ post) \<noteq> None"
proof (induction pre)
  case Nil
  then show ?case by (cases post) (auto split: option.splits)
next
  case (Cons c pre)
  then show ?case by (auto split: option.splits)
qed

lemma lazyBody_Some:
  "lazyBody s = Some body \<Longrightarrow>
   \<exists>rest. s = body @ rest \<and> body \<noteq> [] \<and> last body = 125
     \<and> prefix (asc ''```'') (dropWhile isSpace rest)
     \<and> (\<forall>b1 b2. body = b1 @ b2 \<and> b1 \<noteq> [] \<and> b2 \<noteq> [] \<and> last b1 = 125 \<longrightarrow>
           \<not> prefix (asc ''```'') (dropWhile isSpace (b2 @ rest)))"
proof (induction s arbitrary: body)
  case Nil
  then show ?case by simp
next
  case (Cons c cs)
  show ?case
  proof (cases "c = 125 \<and> prefix (asc ''```'') (dropWhile isSpace cs)")
    case True
    with Cons.prems have "body = [c]" by simp
    with True show ?thesis
      by (auto simp: append_eq_Cons_conv Cons_eq_append_conv)
  next
    case False
    with Cons.prems obtain body' where b: "lazyBody cs = Some body'" "body = c # body'"
      by auto
    from Cons.IH [OF b(1)] obtain rest where r: "cs = body' @ rest" "body' \<noteq> []" "last body' = 125"
        "prefix (asc ''```'') (dropWhile isSpace rest)"
        "\<forall>b1 b2. body' = b1 @ b2 \<and> b1 \<noteq> [] \<and> b2 \<noteq> [] \<and> last b1 = 125 \<longrightarrow>
           \<not> prefix (asc ''```'') (dropWhile isSpace (b2 @ rest))"
      by blast
    have "\<not> prefix (asc ''```'') (dropWhile isSpace (b2 @ rest))"
      if h: "body = b1 @ b2" "b1 \<noteq> []" "b2 \<noteq> []" "last b1 = 125" for b1 b2
    proof (cases "b1 = [c]")
      case True
      with h(1) b(2) have "b2 = body'" by simp
      with True h(4) False r(1) show ?thesis by simp
    next
      case nt: False
      with h(1,2) b(2) obtain b1' where b1: "b1 = c # b1'" "b1' \<noteq> []" "body' = b1' @ b2"
        by (cases b1) auto
      with h(3,4) r(5) show ?thesis by auto
    qed
    with r(1-4) b(2) have "c # cs = body @ rest \<and> body \<noteq> [] \<and> last body = 125
        \<and> prefix (asc ''```'') (dropWhile isSpace rest)
        \<and> (\<forall>b1 b2. body = b1 @ b2 \<and> b1 \<noteq> [] \<and> b2 \<noteq> [] \<and> last b1 = 125 \<longrightarrow>
              \<not> prefix (asc ''```'') (dropWhile isSpace (b2 @ rest)))"
      by auto
    then show ?thesis by blast
  qed
qed

lemma lazyBody_complete:
  "prefix (asc ''```'') (dropWhile isSpace rest) \<Longrightarrow> lazyBody (body @ 125 # rest) \<noteq> None"
  by (induction body) auto

lemma fence_not_space: "dropWhile isSpace (asc ''```'' @ post) = asc ''```'' @ post"
  by (simp add: asc_def isSpace_def)

lemma brace_not_space: "\<not> isSpace 123"
  by (simp add: isSpace_def)

lemma spaces_split: "s = takeWhile isSpace s @ dropWhile isSpace s \<and> (\<forall>c\<in>set (takeWhile isSpace s). isSpace c)"
  by (auto dest: set_takeWhileD)

lemma matchJsonBlock_Some:
  assumes "matchJsonBlock s = Some captured"
  shows "\<exists>ws ws' post.
           s = asc ''```json'' @ ws @ captured @ ws' @ asc ''```'' @ post
         \<and> (\<forall>c\<in>set ws. isSpace c) \<and> (\<forall>c\<in>set ws'. isSpace c)
         \<and> hd captured = 123 \<and> last captured = 125 \<and> 2 \<le> length captured
         \<and> (\<forall>c1 c2. captured = c1 @ c2 \<and> 2 \<le> length c1 \<and> c2 \<noteq> [] \<and> last c1 = 125 \<longrightarrow>
               \<not> prefix (asc ''```'') (dropWhile isSpace (c2 @ ws' @ asc ''```'' @ post)))"
proof -
  from assms obtain t where s: "s = asc ''```json'' @ t"
    by (auto simp: matchJsonBlock_def prefix_def split: if_splits)
  have len: "length (asc ''```json'') = 7"
    by (simp add: asc_def)
  from assms s len obtain r body where
    d: "dropWhile isSpace t = 123 # r" and b: "lazyBody r = Some body" and c: "captured = 123 # body"
    by (auto simp: matchJsonBlock_def split: if_splits list.splits)
  from lazyBody_Some [OF b] obtain rest where r: "r = body @ rest" "body \<noteq> []" "last body = 125"
      "prefix (asc ''```'') (dropWhile isSpace rest)"
      "\<forall>b1 b2. body = b1 @ b2 \<and> b1 \<noteq> [] \<and> b2 \<noteq> [] \<and> last b1 = 125 \<longrightarrow>
         \<not> prefix (asc ''```'') (dropWhile isSpace (b2 @ rest))"
    by blast
  from r(4) obtain post where p: "dropWhile isSpace rest = asc ''```'' @ post"
    by (auto simp: prefix_def)
  define ws where "ws = takeWhile isSpace t"
  define ws' where "ws' = takeWhile isSpace rest"
  have t: "t = ws @ 123 # r" and wsp: "\<forall>c\<in>set ws. isSpace c"
    using spaces_split [of t] d by (simp_all add: ws_def)
  have rest: "rest = ws' @ asc ''```'' @ post" and wsp': "\<forall>c\<in>set ws'. isSpace c"
    using spaces_split [of rest] p by (simp_all add: ws'_def)
  have short: "\<not> prefix (asc ''```'') (dropWhile isSpace (c2 @ ws' @ asc ''```'' @ post))"
    if h: "captured = c1 @ c2" "2 \<le> length c1" "c2 \<noteq> []" "last c1 = 125" for c1 c2
  proof -
    from h(1,2) c obtain b1 where b1: "c1 = 123 # b1" "body = b1 @ c2"
      by (cases c1) auto
    moreover from b1(1) h(2) have "b1 \<noteq> []"
      by auto
    ultimately show ?thesis
      using h(3,4) r(5) rest by auto
  qed
  have "s = asc ''```json'' @ ws @ captured @ ws' @ asc ''```'' @ post"
    using s t r(1) rest c by simp
  moreover have "hd captured = 123 \<and> last captured = 125 \<and> 2 \<le> length captured"
    using c r(2,3) by (cases body) auto
  ultimately show ?thesis
    using wsp wsp' short by blast
qed

lemma matchJsonBlock_complete:
  assumes "\<forall>c\<in>set ws. isSpace c" "\<forall>c\<in>set ws'. isSpace c"
  shows "matchJsonBlock (asc ''```json'' @ ws @ [123] @ body @ [125] @ ws' @ asc ''```'' @ post) \<noteq> None"
proof -
  have len: "length (asc ''```json'') = 7"
    by (simp add: asc_def)
  have "lazyBody (body @ 125 # ws' @ asc ''```'' @ post) \<noteq> None"
    using assms(2) by (intro lazyBody_complete) (simp add: fence_not_space)
  then show ?thesis
    using assms(1) len by (auto simp: matchJsonBlock_def brace_not_space)
qed

lemma jsonMatch_nonempty: "jsonMatch raw = Some captured \<Longrightarrow> captured \<noteq> []"
proof -
  assume "jsonMatch raw = Some captured"
  then obtain pre post where "raw = pre @ post" "matchJsonBlock post = Some captured"
    using regexSearch_Some_suffix [of matchJsonBlock raw captured] unfolding jsonMatch_def by blast
  from matchJsonBlock_Some [OF this(2)] have "2 \<le> length captured"
    by blast
  then show ?thesis by auto
qed

lemma classify_parsed:
  assumes "jsonMatch raw = Some captured" "parse captured = Inr parsed"
  shows "classify parse raw =
          (case field (Some parsed) (asc ''eventDetails'') of
             Some eventDetails \<Rightarrow>
               if field (Some parsed) (asc ''type'') = Some (JStr (asc ''calendar_event''))
                  \<and> truthy (Some eventDetails)
               then CalendarEventIntent eventDetails else IdeaText raw
           | None \<Rightarrow> IdeaText raw)"
  using assms jsonMatch_nonempty [OF assms(1)]
  by (cases parsed) (auto simp: classify_def)

lemma classify_cases:
  "classify parse raw = CalendarEventIntent ed \<longleftrightarrow>
     (\<exists>captured parsed. jsonMatch raw = Some captured \<and> parse captured = Inr parsed
        \<and> field (Some parsed) (asc ''type'') = Some (JStr (asc ''calendar_event''))
        \<and> field (Some parsed) (asc ''eventDetails'') = Some ed \<and> truthy (Some ed))"
proof (cases "jsonMatch raw")
  case None
  then show ?thesis by (simp add: classify_def)
next
  case (Some captured)
  show ?thesis
  proof (cases "parse captured")
    case (Inl err)
    with Some jsonMatch_nonempty [OF Some] show ?thesis
      by (simp add: classify_def)
  next
    case (Inr parsed)
    show ?thesis
      using Some Inr by (auto simp: classify_parsed [where parse = parse, OF Some Inr] split: option.splits)
  qed
qed

lemma classify_total: "(\<exists>ed. classify parse raw = CalendarEventIntent ed) \<or> classify parse raw = IdeaText raw"
proof (cases "jsonMatch raw")
  case None
  then show ?thesis by (simp add: classify_def)
next
  case (Some captured)
  show ?thesis
  proof (cases "parse captured")
    case (Inl err)
    with Some show ?thesis
      by (simp add: classify_def)
  next
    case (Inr parsed)
    show ?thesis
      by (simp add: classify_parsed [where parse = parse, OF Some Inr] split: option.splits)
  qed
qed

lemma fenced_block_found:
  assumes "\<forall>c\<in>set ws. isSpace c" "\<forall>c\<in>set ws'. isSpace c"
  shows "jsonMatch (pre @ asc ''```json'' @ ws @ [123] @ body @ [125] @ ws' @ asc ''```'' @ post) \<noteq> None"
  unfolding jsonMatch_def
  by (rule regexSearch_complete) (rule matchJsonBlock_complete [OF assms])

lemma jsonMatch_Some:
  assumes "jsonMatch raw = Some captured"
  shows "\<exists>pre ws ws' post.
           raw = pre @ asc ''```json'' @ ws @ captured @ ws' @ asc ''```'' @ post
         \<and> (\<forall>c\<in>set ws. isSpace c) \<and> (\<forall>c\<in>set ws'. isSpace c)
         \<and> hd captured = 123 \<and> last captured = 125 \<and> 2 \<le> length captured
         \<and> (\<forall>k<length pre. matchJsonBlock (drop k raw) = None)
         \<and> (\<forall>c1 c2. captured = c1 @ c2 \<and> 2 \<le> length c1 \<and> c2 \<noteq> [] \<and> last c1 = 125 \<longrightarrow>
               \<not> prefix (asc ''```'') (dropWhile isSpace (c2 @ ws' @ asc ''```'' @ post)))"
proof -
  from regexSearch_Some [OF assms [unfolded jsonMatch_def]] obtain pre post0 where
    p: "raw = pre @ post0" "matchJsonBlock post0 = Some captured"
       "\<forall>k<length pre. matchJsonBlock (drop k raw) = None"
    by (elim exE conjE)
  from matchJsonBlock_Some [OF p(2)] obtain ws ws' post where
    m: "post0 = asc ''```json'' @ ws @ captured @ ws' @ asc ''```'' @ post"
       "\<forall>c\<in>set ws. isSpace c" "\<forall>c\<in>set ws'. isSpace c"
       "hd captured = 123" "last captured = 125" "2 \<le> length captured"
       "\<forall>c1 c2. captured = c1 @ c2 \<and> 2 \<le> length c1 \<and> c2 \<noteq> [] \<and> last c1 = 125 \<longrightarrow>
               \<not> prefix (asc ''```'') (dropWhile isSpace (c2 @ ws' @ asc ''```'' @ post))"
    by (elim exE conjE)
  show ?thesis
    using p(1,3) m by (intro exI [of _ pre] exI [of _ ws] exI [of _ ws'] exI [of _ post]) simp
qed

lemma braces_around:
  fixes captured :: jsstring
  assumes "hd captured = 123" "last captured = 125" "2 \<le> length captured"
  shows "\<exists>body. captured = [123] @ body @ [125]"
proof -
  from assms(1,3) obtain t where t1: "captured = 123 # t"
    by (cases captured) auto
  with assms(3) have "t \<noteq> []"
    by auto
  note t = t1 this
  with assms(2) have "t = butlast t @ [125]"
    by (metis append_butlast_last_id last_ConsR)
  with t(1) have "captured = [123] @ butlast t @ [125]"
    by simp
  then show ?thesis ..
qed

text \<open>
  Claim C2, as the code has it. The response is a calendar event exactly when the first
  fenced block parses to a value whose \<^verbatim>\<open>type\<close> is \<^verbatim>\<open>calendar_event\<close> and whose
  \<^verbatim>\<open>eventDetails\<close> is present (truthy), and the intent then carries these details; in
  every other case the result is the idea text of the unchanged response, whatever
  \<^verbatim>\<open>JSON.parse\<close> throws. A first fenced block is found exactly when the response holds
  the opening fence, white space, a text in braces, white space and the closing fence; it
  starts at the leftmost index at which the pattern matches and ends with the first closing
  brace that white space and the closing fence follow.
\<close>

theorem classify_reads_first_block:
  "(classify parse raw = CalendarEventIntent ed \<longleftrightarrow>
      (\<exists>captured parsed. jsonMatch raw = Some captured \<and> parse captured = Inr parsed
         \<and> field (Some parsed) (asc ''type'') = Some (JStr (asc ''calendar_event''))
         \<and> field (Some parsed) (asc ''eventDetails'') = Some ed \<and> truthy (Some ed)))
   \<and> ((\<forall>ed'. classify parse raw \<noteq> CalendarEventIntent ed') \<longrightarrow> classify parse raw = IdeaText raw)
   \<and> (jsonMatch raw \<noteq> None \<longleftrightarrow>
        (\<exists>pre ws body ws' post.
           raw = pre @ asc ''```json'' @ ws @ [123] @ body @ [125] @ ws' @ asc ''```'' @ post
         \<and> (\<forall>c\<in>set ws. isSpace c) \<and> (\<forall>c\<in>set ws'. isSpace c)))
   \<and> (\<forall>captured. jsonMatch raw = Some captured \<longrightarrow>
        (\<exists>pre ws ws' post.
           raw = pre @ asc ''```json'' @ ws @ captured @ ws' @ asc ''```'' @ post
         \<and> (\<forall>c\<in>set ws. isSpace c) \<and> (\<forall>c\<in>set ws'. isSpace c)
         \<and> hd captured = 123 \<and> last captured = 125 \<and> 2 \<le> length captured
         \<and> (\<forall>k<length pre. matchJsonBlock (drop k raw) = None)
         \<and> (\<forall>c1 c2. captured = c1 @ c2 \<and> 2 \<le> length c1 \<and> c2 \<noteq> [] \<and> last c1 = 125 \<longrightarrow>
               \<not> prefix (asc ''```'') (dropWhile isSpace (c2 @ ws' @ asc ''```'' @ post)))))"
proof (intro conjI allI impI)
  show "classify parse raw = CalendarEventIntent ed \<longleftrightarrow>
      (\<exists>captured parsed. jsonMatch raw = Some captured \<and> parse captured = Inr parsed
         \<and> field (Some parsed) (asc ''type'') = Some (JStr (asc ''calendar_event''))
         \<and> field (Some parsed) (asc ''eventDetails'') = Some ed \<and> truthy (Some ed))"
    by (rule classify_cases)
next
  assume "\<forall>ed'. classify parse raw \<noteq> CalendarEventIntent ed'"
  then show "classify parse raw = IdeaText raw"
    using classify_total [of parse raw] by blast
next
  show "jsonMatch raw \<noteq> None \<longleftrightarrow>
        (\<exists>pre ws body ws' post.
           raw = pre @ asc ''```json'' @ ws @ [123] @ body @ [125] @ ws' @ asc ''```'' @ post
         \<and> (\<forall>c\<in>set ws. isSpace c) \<and> (\<forall>c\<in>set ws'. isSpace c))"
  proof
    assume "jsonMatch raw \<noteq> None"
    then obtain captured where c: "jsonMatch raw = Some captured"
      by auto
    from jsonMatch_Some [OF c] obtain pre ws ws' post where
      m: "raw = pre @ asc ''```json'' @ ws @ captured @ ws' @ asc ''```'' @ post"
         "\<forall>c\<in>set ws. isSpace c" "\<forall>c\<in>set ws'. isSpace c"
         "hd captured = 123" "last captured = 125" "2 \<le> length captured"
      by (elim exE conjE)
    from braces_around [OF m(4-6)] obtain body where "captured = [123] @ body @ [125]" ..
    with m(1-3) show "\<exists>pre ws body ws' post.
           raw = pre @ asc ''```json'' @ ws @ [123] @ body @ [125] @ ws' @ asc ''```'' @ post
         \<and> (\<forall>c\<in>set ws. isSpace c) \<and> (\<forall>c\<in>set ws'. isSpace c)"
      by (intro exI [of _ pre] exI [of _ ws] exI [of _ body] exI [of _ ws'] exI [of _ post]) simp
  next
    assume "\<exists>pre ws body ws' post.
           raw = pre @ asc ''```json'' @ ws @ [123] @ body @ [125] @ ws' @ asc ''```'' @ post
         \<and> (\<forall>c\<in>set ws. isSpace c) \<and> (\<forall>c\<in>set ws'. isSpace c)"
    then show "jsonMatch raw \<noteq> None"
      using fenced_block_found by (elim exE conjE) simp
  qed
next
  fix captured
  assume "jsonMatch raw = Some captured"
  then show "\<exists>pre ws ws' post.
           raw = pre @ asc ''```json'' @ ws @ captured @ ws' @ asc ''```'' @ post
         \<and> (\<forall>c\<in>set ws. isSpace c) \<and> (\<forall>c\<in>set ws'. isSpace c)
         \<and> hd captured = 123 \<and> last captured = 125 \<and> 2 \<le> length captured
         \<and> (\<forall>k<length pre. matchJsonBlock (drop k raw) = None)
         \<and> (\<forall>c1 c2. captured = c1 @ c2 \<and> 2 \<le> length c1 \<and> c2 \<noteq> [] \<and> last c1 = 125 \<longrightarrow>
               \<not> prefix (asc ''```'') (dropWhile isSpace (c2 @ ws' @ asc ''```'' @ post)))"
    by (rule jsonMatch_Some)
qed

lemma sampleParse_sample:
  "sampleParse sampleJson
   = Inr (JObj [(asc ''type'', JStr (asc ''calendar_event'')), (asc ''eventDetails'', sampleDetails)])"
  by (simp add: sampleParse_def)

lemma sample_fields:
  "field (Some (JObj [(asc ''type'', JStr (asc ''calendar_event'')), (asc ''eventDetails'', sampleDetails)]))
     (asc ''type'') = Some (JStr (asc ''calendar_event''))"
  "field (Some (JObj [(asc ''type'', JStr (asc ''calendar_event'')), (asc ''eventDetails'', sampleDetails)]))
     (asc ''eventDetails'') = Some sampleDetails"
  "truthy (Some sampleDetails)"
  by (simp_all add: sampleDetails_def asc_def)

text \<open>The theorem at a response that is one fenced block with the sample event.\<close>

theorem classify_first_block_witness:
  "jsonMatch (asc ''```json'' @ sampleJson @ asc ''```'') = Some sampleJson
   \<and> sampleParse sampleJson
       = Inr (JObj [(asc ''type'', JStr (asc ''calendar_event'')), (asc ''eventDetails'', sampleDetails)])
   \<and> truthy (Some sampleDetails)
   \<and> classify sampleParse (asc ''```json'' @ sampleJson @ asc ''```'') = CalendarEventIntent sampleDetails"
proof -
  have found: "\<exists>captured parsed. jsonMatch (asc ''```json'' @ sampleJson @ asc ''```'') = Some captured
      \<and> sampleParse captured = Inr parsed
      \<and> field (Some parsed) (asc ''type'') = Some (JStr (asc ''calendar_event''))
      \<and> field (Some parsed) (asc ''eventDetails'') = Some sampleDetails \<and> truthy (Some sampleDetails)"
    using jsonMatch_sample sampleParse_sample sample_fields by blast
  have "classify sampleParse (asc ''```json'' @ sampleJson @ asc ''```'') = CalendarEventIntent sampleDetails"
    by (rule iffD2 [OF conjunct1 [OF classify_reads_first_block]]) (rule found)
  then show ?thesis
    using jsonMatch_sample sampleParse_sample sample_fields(3) by blast
qed

text \<open>
  Claim C2 as the specification states it fails on a response with two fenced blocks: the
  second block parses to a calendar event with its details, but only the first block is
  read, \<^verbatim>\<open>JSON.parse\<close> rejects it, and the response is handled as idea text.
\<close>

theorem classify_second_block_counterexample:
  "classify sampleParse (asc ''```json{a}``` '' @ asc ''```json'' @ sampleJson @ asc ''```'')
     = IdeaText (asc ''```json{a}``` '' @ asc ''```json'' @ sampleJson @ asc ''```'')
   \<and> sampleParse sampleJson
       = Inr (JObj [(asc ''type'', JStr (asc ''calendar_event'')), (asc ''eventDetails'', sampleDetails)])
   \<and> field (Some (JObj [(asc ''type'', JStr (asc ''calendar_event'')), (asc ''eventDetails'', sampleDetails)]))
       (asc ''eventDetails'') = Some sampleDetails
   \<and> truthy (Some sampleDetails)"
proof -
  have m: "jsonMatch (asc ''```json{a}``` '' @ asc ''```json'' @ sampleJson @ asc ''```'') = Some (asc ''{a}'')"
    by (simp add: jsonMatch_def matchJsonBlock_def asc_def isSpace_def)
  have "asc ''{a}'' \<noteq> sampleJson" "asc ''{a}'' \<noteq> []"
    by (simp_all add: sampleJson_def asc_def)
  then have "classify sampleParse (asc ''```json{a}``` '' @ asc ''```json'' @ sampleJson @ asc ''```'')
     = IdeaText (asc ''```json{a}``` '' @ asc ''```json'' @ sampleJson @ asc ''```'')"
    by (simp add: classify_def m sampleParse_def)
  then show ?thesis
    using sampleParse_sample sample_fields by blast
qed

section \<open>The idea formatter\<close>

lemma trim_eq_Nil: "trim s = [] \<longleftrightarrow> (\<forall>c\<in>set s. isSpace c)"
proof
  assume "trim s = []"
  then have "\<forall>c\<in>set (dropWhile isSpace s). isSpace c"
    by (simp add: trim_def dropWhile_eq_Nil_conv)
  then have "dropWhile isSpace s = []"
    using hd_dropWhile [of isSpace s] by (cases "dropWhile isSpace s") auto
  then show "\<forall>c\<in>set s. isSpace c"
    by (simp add: dropWhile_eq_Nil_conv)
next
  assume "\<forall>c\<in>set s. isSpace c"
  then show "trim s = []"
    by (auto simp: trim_def dest: set_dropWhileD)
qed

lemma sublist_trim: "sublist (trim s) s"
proof -
  have "sublist (rev (trim s)) (rev (dropWhile isSpace s))"
    by (simp add: trim_def)
  then have "sublist (trim s) (dropWhile isSpace s)"
    by (simp only: sublist_rev)
  then show ?thesis
    using sublist_dropWhile sublist_order.order_trans by blast
qed

lemma collapseSpaces_blank: "(\<forall>c\<in>set (collapseSpaces s). isSpace c) \<longleftrightarrow> (\<forall>c\<in>set s. isSpace c)"
proof (induction s rule: collapseSpaces.induct)
  case 1
  then show ?case by simp
next
  case (2 c cs)
  have sp: "isSpace 32"
    by (simp add: isSpace_def)
  show ?case
  proof (cases "isSpace c")
    case True
    have "(\<forall>x\<in>set (dropWhile isSpace cs). isSpace x) \<longleftrightarrow> (\<forall>x\<in>set cs. isSpace x)"
      by (metis dropWhile_eq_Nil_conv hd_dropWhile list.set_sel(1) empty_iff list.set(1))
    with True 2 sp show ?thesis by simp
  next
    case False
    with 2 show ?thesis by simp
  qed
qed

lemma cleanedText_eq_Nil: "cleanedText text = [] \<longleftrightarrow> (\<forall>c\<in>set text. isSpace c)"
  by (simp add: cleanedText_def trim_eq_Nil collapseSpaces_blank)

lemma noLabel_split: "noLabel s \<Longrightarrow> splitIdeas piece s = [piece @ s]"
  by (induction s arbitrary: piece) simp_all

lemma trim_trim: "trim (trim s) = trim s"
proof (cases "trim s = []")
  case True
  show ?thesis
    unfolding True by (simp add: trim_def)
next
  case False
  define d where "d = dropWhile isSpace s"
  define r where "r = dropWhile isSpace (rev d)"
  have t: "trim s = rev r"
    by (simp add: trim_def d_def r_def)
  with False have rne: "r \<noteq> []" by simp
  then have "\<not> isSpace (hd r)"
    unfolding r_def using hd_dropWhile by blast
  then have lastr: "\<not> isSpace (last (rev r))"
    using rne by (simp add: last_rev)
  have "d \<noteq> []"
    using rne r_def by auto
  then have "\<not> isSpace (hd d)"
    unfolding d_def using hd_dropWhile by blast
  moreover have "hd (rev r) = hd d"
  proof -
    have "suffix r (rev d)"
      unfolding r_def by (rule suffix_dropWhile)
    then obtain p where "rev d = p @ r" by (auto simp: suffix_def)
    then have "d = rev r @ rev p"
      by (metis rev_append rev_rev_ident)
    with rne show ?thesis by simp
  qed
  ultimately have "\<not> isSpace (hd (rev r))" by simp
  then have "dropWhile isSpace (rev r) = rev r"
    using rne by (cases "rev r") auto
  moreover have "dropWhile isSpace r = r"
    using \<open>\<not> isSpace (hd r)\<close> rne by (cases r) auto
  ultimately have "trim (rev r) = rev r"
    by (simp add: trim_def)
  then show ?thesis
    by (simp only: t)
qed

lemma renderIdea_star: "42 \<in> set (renderIdea index r)"
  by (simp add: renderIdea_def asc_def)

lemma formatResponse_eq_Nil: "formatResponse text = [] \<longleftrightarrow> ideaBlocks text = []"
proof
  assume e: "formatResponse text = []"
  show "ideaBlocks text = []"
  proof (rule ccontr)
    assume "ideaBlocks text \<noteq> []"
    then obtain b bs where "ideaBlocks text = b # bs"
      by (cases "ideaBlocks text") auto
    then have "42 \<in> set (concat (map (\<lambda>(index, block). formatBlock block index)
        (enumerate 0 (ideaBlocks text))))"
      by (simp add: formatBlock_def renderIdea_star)
    moreover have "\<not> isSpace 42"
      by (simp add: isSpace_def)
    ultimately show False
      using e unfolding formatResponse_def trim_eq_Nil by blast
  qed
next
  assume "ideaBlocks text = []"
  then show "formatResponse text = []"
    by (simp add: formatResponse_def trim_def)
qed

lemma concept_sample_record:
  "extractIdea (asc ''Idea Name:'' @ trim (asc ''x Concept: y'')) 0
   = \<lparr> ideaName = asc ''x'', concept = asc ''y'', keyFeatures = asc ''N/A'',
       targetMarket = asc ''N/A'', usp = asc ''N/A'', monetization = asc ''N/A'',
       challenges = asc ''N/A'', summary = asc ''N/A'' \<rparr>"
proof -
  have t: "asc ''Idea Name:'' @ trim (asc ''x Concept: y'') = asc ''Idea Name:x Concept: y''"
    by (simp add: trim_def asc_def isSpace_def)
  have "ideaNameMatch (asc ''Idea Name:x Concept: y'') = Some (asc ''x'')"
    by (simp add: ideaNameMatch_def matchField_def startsWithCI_def canonicalize_def lookahead_def
        isLineTerminator_def asc_def isSpace_def)
  moreover have "trim (filter (\<lambda>c. c \<noteq> 42 \<and> c \<noteq> 45) (asc ''x'')) = asc ''x''"
    by (simp add: trim_def asc_def isSpace_def)
  moreover have "conceptMatch (asc ''Idea Name:x Concept: y'') = Some (asc ''y'')"
    by (simp add: conceptMatch_def matchField_def startsWithCI_def canonicalize_def lookahead_def
        isLineTerminator_def asc_def isSpace_def)
  moreover have "trim (asc ''y'') = asc ''y''"
    by (simp add: trim_def asc_def isSpace_def)
  moreover have "keyFeaturesMatch (asc ''Idea Name:x Concept: y'') = None"
    by (simp add: keyFeaturesMatch_def matchField_def startsWithCI_def canonicalize_def asc_def)
  moreover have "targetMarketMatch (asc ''Idea Name:x Concept: y'') = None"
    by (simp add: targetMarketMatch_def matchField_def startsWithCI_def canonicalize_def asc_def)
  moreover have "uspMatch (asc ''Idea Name:x Concept: y'') = None"
    by (simp add: uspMatch_def matchField_def startsWithCI_def canonicalize_def asc_def)
  moreover have "monetizationMatch (asc ''Idea Name:x Concept: y'') = None"
    by (simp add: monetizationMatch_def matchField_def startsWithCI_def canonicalize_def asc_def)
  moreover have "challengesMatch (asc ''Idea Name:x Concept: y'') = None"
    by (simp add: challengesMatch_def matchField_def startsWithCI_def canonicalize_def asc_def)
  moreover have "summaryMatch (asc ''Idea Name:x Concept: y'') = None"
    by (simp add: summaryMatch_def matchSummary_def startsWithCI_def canonicalize_def asc_def)
  ultimately show ?thesis
    by (simp add: extractIdea_def t orNA_def)
qed

lemma concept_sample_clean: "cleanedText (asc ''x Concept: y'') = asc ''x Concept: y''"
  by (simp add: cleanedText_def trim_def asc_def isSpace_def)

lemma concept_sample_noLabel: "noLabel (asc ''x Concept: y'')"
  by (simp add: matchDelimiter_def asc_def isDigit_def)

lemma concept_sample_rendered:
  "trim (formatBlock (asc ''x Concept: y'') 0)
   = asc ''**1. Idea Name:** x\<newline>\<newline>  **Concept:** y\<newline>\<newline>  **Key Features:** N/A\<newline>\<newline>  **Target Market:** N/A\<newline>\<newline>  **Unique Value Proposition:** N/A\<newline>\<newline>  **Monetization:** N/A\<newline>\<newline>  **Potential Challenges/Considerations:** N/A\<newline>\<newline>  **Summary:** N/A\<newline>\<newline>---''"
proof -
  have "formatBlock (asc ''x Concept: y'') 0
      = renderIdea 0 \<lparr> ideaName = asc ''x'', concept = asc ''y'', keyFeatures = asc ''N/A'',
          targetMarket = asc ''N/A'', usp = asc ''N/A'', monetization = asc ''N/A'',
          challenges = asc ''N/A'', summary = asc ''N/A'' \<rparr>"
    by (simp add: formatBlock_def concept_sample_record)
  then show ?thesis
    by (simp add: renderIdea_def nl_def trim_def asc_def isSpace_def showNat.simps)
qed

text \<open>
  Claim C4, as the code has it. The output is empty exactly when the splitter leaves no
  block that is not blank. For a text in which the pattern of the splitter matches nowhere
  the whole cleaned text is the one block, so the output is empty only when the text is
  empty or all white space; any other text without a label is rendered as one record,
  numbered 1, whose block is the whole cleaned text.
\<close>

theorem empty_output_iff_no_blocks:
  "(formatResponse text = [] \<longleftrightarrow> ideaBlocks text = [])
   \<and> (noLabel (cleanedText text) \<longrightarrow>
        ideaBlocks text = (if cleanedText text = [] then [] else [cleanedText text]))
   \<and> (noLabel (cleanedText text) \<longrightarrow> (formatResponse text = [] \<longleftrightarrow> (\<forall>c\<in>set text. isSpace c)))
   \<and> (noLabel (cleanedText text) \<and> cleanedText text \<noteq> [] \<longrightarrow>
        formatResponse text = trim (formatBlock (cleanedText text) 0))"
proof -
  have b: "ideaBlocks text = (if cleanedText text = [] then [] else [cleanedText text])"
    if "noLabel (cleanedText text)"
  proof -
    have "trim (cleanedText text) = cleanedText text"
      by (simp add: cleanedText_def trim_trim)
    with that show ?thesis
      by (simp add: ideaBlocks_def noLabel_split)
  qed
  then have "formatResponse text = [] \<longleftrightarrow> (\<forall>c\<in>set text. isSpace c)" if "noLabel (cleanedText text)"
    using that by (simp add: formatResponse_eq_Nil cleanedText_eq_Nil)
  moreover have "formatResponse text = trim (formatBlock (cleanedText text) 0)"
    if "noLabel (cleanedText text) \<and> cleanedText text \<noteq> []"
    using that b by (simp add: formatResponse_def)
  ultimately show ?thesis
    using b by (simp add: formatResponse_eq_Nil)
qed

text \<open>
  The theorem at a text of blanks and at a text that is a label and nothing else: both give
  the empty output. At the text \<^verbatim>\<open>x Concept: y\<close>, which holds no label of the
  splitter, the output is one record with the name \<^verbatim>\<open>x\<close> and the concept \<^verbatim>\<open>y\<close>.
\<close>

theorem empty_output_witness:
  "noLabel (cleanedText (asc ''   ''))
   \<and> formatResponse (asc ''   '') = []
   \<and> ideaBlocks (asc ''1. Idea Name:'') = []
   \<and> formatResponse (asc ''1. Idea Name:'') = []
   \<and> noLabel (cleanedText (asc ''x Concept: y''))
   \<and> cleanedText (asc ''x Concept: y'') \<noteq> []
   \<and> formatResponse (asc ''x Concept: y'')
       = asc ''**1. Idea Name:** x\<newline>\<newline>  **Concept:** y\<newline>\<newline>  **Key Features:** N/A\<newline>\<newline>  **Target Market:** N/A\<newline>\<newline>  **Unique Value Proposition:** N/A\<newline>\<newline>  **Monetization:** N/A\<newline>\<newline>  **Potential Challenges/Considerations:** N/A\<newline>\<newline>  **Summary:** N/A\<newline>\<newline>---''"
proof -
  have c: "cleanedText (asc ''   '') = []"
    by (simp add: cleanedText_eq_Nil asc_def isSpace_def)
  then have n: "noLabel (cleanedText (asc ''   ''))"
    by simp
  have s: "\<forall>c\<in>set (asc ''   ''). isSpace c"
    by (simp add: asc_def isSpace_def)
  have i: "ideaBlocks (asc ''1. Idea Name:'') = []"
    by (simp add: ideaBlocks_def cleanedText_def trim_def asc_def isSpace_def matchDelimiter_def
        isDigit_def)
  from empty_output_iff_no_blocks [of "asc ''   ''"] n s have 1: "formatResponse (asc ''   '') = []"
    by blast
  from empty_output_iff_no_blocks [of "asc ''1. Idea Name:''"] i have 2: "formatResponse (asc ''1. Idea Name:'') = []"
    by blast
  have x: "noLabel (cleanedText (asc ''x Concept: y''))"
    and y: "cleanedText (asc ''x Concept: y'') \<noteq> []"
    by (simp_all add: concept_sample_clean concept_sample_noLabel) (simp add: asc_def)
  from empty_output_iff_no_blocks [of "asc ''x Concept: y''"] x y
  have "formatResponse (asc ''x Concept: y'') = trim (formatBlock (cleanedText (asc ''x Concept: y'')) 0)"
    by blast
  then have 3: "formatResponse (asc ''x Concept: y'')
       = asc ''**1. Idea Name:** x\<newline>\<newline>  **Concept:** y\<newline>\<newline>  **Key Features:** N/A\<newline>\<newline>  **Target Market:** N/A\<newline>\<newline>  **Unique Value Proposition:** N/A\<newline>\<newline>  **Monetization:** N/A\<newline>\<newline>  **Potential Challenges/Considerations:** N/A\<newline>\<newline>  **Summary:** N/A\<newline>\<newline>---''"
    by (simp only: concept_sample_clean concept_sample_rendered)
  show ?thesis
    using n i 1 2 x y 3 by blast
qed

lemma hello_clean: "cleanedText (asc ''hello'') = asc ''hello''"
  by (simp add: cleanedText_def trim_def asc_def isSpace_def)

lemma hello_noLabel: "noLabel (asc ''hello'')"
  by (simp add: matchDelimiter_def asc_def isDigit_def)

text \<open>
  Claim C4 as the specification states it fails: in \<^verbatim>\<open>hello\<close> no label is recognised,
  and the output is not empty: the text is rendered as the name of idea 1.
\<close>

theorem no_label_counterexample:
  "noLabel (cleanedText (asc ''hello''))
   \<and> formatResponse (asc ''hello'') \<noteq> []
   \<and> ideaBlocks (asc ''hello'') = [asc ''hello'']
   \<and> ideaName (extractIdea (asc ''Idea Name:'' @ trim (asc ''hello'')) 0) = asc ''hello''"
proof -
  have b: "ideaBlocks (asc ''hello'') = [asc ''hello'']"
    using hello_noLabel
    by (simp add: ideaBlocks_def hello_clean noLabel_split) (simp add: trim_def asc_def isSpace_def)
  then have "formatResponse (asc ''hello'') \<noteq> []"
    by (simp add: formatResponse_eq_Nil)
  moreover have "ideaName (extractIdea (asc ''Idea Name:'' @ trim (asc ''hello'')) 0) = asc ''hello''"
    by (simp add: extractIdea_def ideaNameMatch_def matchField_def startsWithCI_def canonicalize_def
        lookahead_def isLineTerminator_def trim_def asc_def isSpace_def)
  ultimately show ?thesis
    using b hello_noLabel by (simp add: hello_clean)
qed

section \<open>The failure marker in the output\<close>

lemma prefix_separator:
  assumes "c \<notin> set w" "prefix w (a @ c # b)"
  shows "prefix w a"
proof -
  from assms(2) consider "prefix w a" | us where "w = a @ us" "prefix us (c # b)"
    unfolding prefix_append by blast
  then show ?thesis
  proof cases
    case 1
    then show ?thesis .
  next
    case 2
    from 2(2) have "us = [] \<or> hd us = c \<and> us \<noteq> []"
      by (cases us) (auto simp: prefix_Cons)
    with 2(1) assms(1) show ?thesis
      by (cases us) auto
  qed
qed

lemma sublist_separator:
  assumes "c \<notin> set w" "sublist w (a @ c # b)"
  shows "sublist w a \<or> sublist w b"
  using assms(2)
proof (induction a)
  case Nil
  then have "prefix w (c # b) \<or> sublist w b"
    by (simp add: sublist_Cons_right)
  moreover have "prefix w (c # b) \<Longrightarrow> prefix w []"
    using prefix_separator [OF assms(1), of "[]" b] by simp
  ultimately show ?case by auto
next
  case (Cons x a)
  then have "prefix w ((x # a) @ c # b) \<or> sublist w (a @ c # b)"
    by (simp add: sublist_Cons_right)
  then show ?case
  proof
    assume "prefix w ((x # a) @ c # b)"
    then have "prefix w (x # a)"
      by (rule prefix_separator [OF assms(1)])
    then show ?thesis by (simp add: prefix_imp_sublist)
  next
    assume "sublist w (a @ c # b)"
    with Cons.IH have "sublist w a \<or> sublist w b" .
    then show ?thesis by (auto simp: sublist_Cons_right)
  qed
qed

lemma failureMarker_chars: "10 \<notin> set failureMarker" "42 \<notin> set failureMarker" "47 \<in> set failureMarker"
  "length failureMarker = 17"
  by (simp_all add: failureMarker_def asc_def)

lemma marker_skip: "49 \<notin> set p \<Longrightarrow> sublist failureMarker (p @ s) \<Longrightarrow> sublist failureMarker s"
  using sublist_skip_prefix [OF failureMarker_hd(1), of p s] failureMarker_hd(2) by simp

lemma marker_short: "length s < 17 \<Longrightarrow> \<not> sublist failureMarker s"
  using sublist_length_le [of failureMarker s] failureMarker_chars(4) by auto

lemma showNat_digits: "set (showNat n) \<subseteq> {48..57}"
proof (induction n rule: showNat.induct)
  case (1 n)
  show ?case
  proof (cases "n < 10")
    case True
    then show ?thesis by (subst showNat.simps) auto
  next
    case False
    have "n mod 10 < 10" by simp
    then have "48 + n mod 10 \<in> {48..57}" by auto
    with False 1 show ?thesis
      by (subst showNat.simps) auto
  qed
qed

lemma marker_not_in_number: "\<not> sublist failureMarker (showNat n @ asc ''. Idea Name:'')"
proof
  assume "sublist failureMarker (showNat n @ asc ''. Idea Name:'')"
  then have "set failureMarker \<subseteq> set (showNat n @ asc ''. Idea Name:'')"
    by (rule set_mono_sublist)
  then have "47 \<in> set (showNat n) \<or> 47 \<in> set (asc ''. Idea Name:'')"
    using failureMarker_chars(3) by auto
  moreover have "47 \<notin> set (asc ''. Idea Name:'')"
    by (simp add: asc_def)
  moreover have "47 \<notin> set (showNat n)"
    using showNat_digits [of n] by auto
  ultimately show False by simp
qed

text \<open>One line of the template: a label set in asterisks, a blank and the field.\<close>

lemma marker_in_line:
  assumes "49 \<notin> set label" "sublist failureMarker (asc ''  **'' @ label @ asc ''** '' @ value @ rest)"
    "rest = [] \<or> hd rest = 10"
  shows "sublist failureMarker value \<or> sublist failureMarker (tl rest)"
proof -
  have "49 \<notin> set (asc ''  **'' @ label @ asc ''** '')"
    using assms(1) by (simp add: asc_def)
  then have v: "sublist failureMarker (value @ rest)"
    using marker_skip [of "asc ''  **'' @ label @ asc ''** ''" "value @ rest"] assms(2) by simp
  show ?thesis
  proof (cases rest)
    case Nil
    with v show ?thesis by simp
  next
    case (Cons c r)
    with assms(3) have "c = 10" by simp
    with v Cons show ?thesis
      using sublist_separator [OF failureMarker_chars(1), of "value" r] by simp
  qed
qed

lemma labels_without_one:
  "49 \<notin> set (asc ''Concept:'')" "49 \<notin> set (asc ''Key Features:'')" "49 \<notin> set (asc ''Target Market:'')"
  "49 \<notin> set (asc ''Unique Value Proposition:'')" "49 \<notin> set (asc ''Monetization:'')"
  "49 \<notin> set (asc ''Potential Challenges/Considerations:'')" "49 \<notin> set (asc ''Summary:'')"
  by (simp_all add: asc_def)

lemma renderIdea_lines:
  "renderIdea index r =
     [10] @ asc ''**'' @ (showNat (index + 1) @ asc ''. Idea Name:'') @ 42 # (asc ''* '' @ ideaName r @ 10 # 10 #
     (asc ''  **'' @ asc ''Concept:'' @ asc ''** '' @ concept r @ 10 # 10 #
     (asc ''  **'' @ asc ''Key Features:'' @ asc ''** '' @ keyFeatures r @ 10 # 10 #
     (asc ''  **'' @ asc ''Target Market:'' @ asc ''** '' @ targetMarket r @ 10 # 10 #
     (asc ''  **'' @ asc ''Unique Value Proposition:'' @ asc ''** '' @ usp r @ 10 # 10 #
     (asc ''  **'' @ asc ''Monetization:'' @ asc ''** '' @ monetization r @ 10 # 10 #
     (asc ''  **'' @ asc ''Potential Challenges/Considerations:'' @ asc ''** '' @ challenges r @ 10 # 10 #
     (asc ''  **'' @ asc ''Summary:'' @ asc ''** '' @ summary r @ 10 # 10 # asc ''---'' @ [10]))))))))"
  by (simp add: renderIdea_def nl_def asc_def)

lemma marker_in_record:
  assumes "sublist failureMarker (renderIdea index r)"
  shows "sublist failureMarker (ideaName r) \<or> sublist failureMarker (concept r)
       \<or> sublist failureMarker (keyFeatures r) \<or> sublist failureMarker (targetMarket r)
       \<or> sublist failureMarker (usp r) \<or> sublist failureMarker (monetization r)
       \<or> sublist failureMarker (challenges r) \<or> sublist failureMarker (summary r)"
proof -
  define l8 where "l8 = asc ''  **'' @ asc ''Summary:'' @ asc ''** '' @ summary r @ 10 # 10 # asc ''---'' @ [10]"
  define l7 where "l7 = asc ''  **'' @ asc ''Potential Challenges/Considerations:'' @ asc ''** '' @ challenges r @ 10 # 10 # l8"
  define l6 where "l6 = asc ''  **'' @ asc ''Monetization:'' @ asc ''** '' @ monetization r @ 10 # 10 # l7"
  define l5 where "l5 = asc ''  **'' @ asc ''Unique Value Proposition:'' @ asc ''** '' @ usp r @ 10 # 10 # l6"
  define l4 where "l4 = asc ''  **'' @ asc ''Target Market:'' @ asc ''** '' @ targetMarket r @ 10 # 10 # l5"
  define l3 where "l3 = asc ''  **'' @ asc ''Key Features:'' @ asc ''** '' @ keyFeatures r @ 10 # 10 # l4"
  define l2 where "l2 = asc ''  **'' @ asc ''Concept:'' @ asc ''** '' @ concept r @ 10 # 10 # l3"
  define l1 where "l1 = asc ''* '' @ ideaName r @ 10 # 10 # l2"
  have rec: "renderIdea index r = ([10] @ asc ''**'') @ (showNat (index + 1) @ asc ''. Idea Name:'') @ 42 # l1"
    unfolding renderIdea_lines l1_def l2_def l3_def l4_def l5_def l6_def l7_def l8_def by simp
  have skip10: "sublist failureMarker (10 # s) \<Longrightarrow> sublist failureMarker s" for s
    using marker_skip [of "[10]" s] by simp
  have "49 \<notin> set ([10] @ asc ''**'')"
    by (simp add: asc_def)
  with assms have "sublist failureMarker ((showNat (index + 1) @ asc ''. Idea Name:'') @ 42 # l1)"
    unfolding rec using marker_skip by blast
  then have "sublist failureMarker l1"
    using sublist_separator [OF failureMarker_chars(2)] marker_not_in_number by blast
  moreover have "49 \<notin> set (asc ''* '')"
    by (simp add: asc_def)
  ultimately have "sublist failureMarker (ideaName r @ 10 # 10 # l2)"
    unfolding l1_def using marker_skip by blast
  then have n: "sublist failureMarker (ideaName r) \<or> sublist failureMarker l2"
    using sublist_separator [OF failureMarker_chars(1)] skip10 by blast
  have step: "sublist failureMarker (asc ''  **'' @ label @ asc ''** '' @ value @ 10 # 10 # next)
      \<Longrightarrow> 49 \<notin> set label \<Longrightarrow> sublist failureMarker value \<or> sublist failureMarker next" for label "value" "next"
    using marker_in_line [of label "value" "10 # 10 # next"] skip10 by auto
  have e: "\<not> sublist failureMarker (asc ''---'' @ [10])"
    by (rule marker_short) (simp add: asc_def)
  have 2: "sublist failureMarker l2 \<Longrightarrow> sublist failureMarker (concept r) \<or> sublist failureMarker l3"
    unfolding l2_def using step labels_without_one(1) by blast
  have 3: "sublist failureMarker l3 \<Longrightarrow> sublist failureMarker (keyFeatures r) \<or> sublist failureMarker l4"
    unfolding l3_def using step labels_without_one(2) by blast
  have 4: "sublist failureMarker l4 \<Longrightarrow> sublist failureMarker (targetMarket r) \<or> sublist failureMarker l5"
    unfolding l4_def using step labels_without_one(3) by blast
  have 5: "sublist failureMarker l5 \<Longrightarrow> sublist failureMarker (usp r) \<or> sublist failureMarker l6"
    unfolding l5_def using step labels_without_one(4) by blast
  have 6: "sublist failureMarker l6 \<Longrightarrow> sublist failureMarker (monetization r) \<or> sublist failureMarker l7"
    unfolding l6_def using step labels_without_one(5) by blast
  have 7: "sublist failureMarker l7 \<Longrightarrow> sublist failureMarker (challenges r) \<or> sublist failureMarker l8"
    unfolding l7_def using step labels_without_one(6) by blast
  have 8: "sublist failureMarker l8 \<Longrightarrow> sublist failureMarker (summary r)"
    unfolding l8_def using step [of "asc ''Summary:''" "summary r" "asc ''---'' @ [10]"] labels_without_one(7) e
    by blast
  from n 2 3 4 5 6 7 8 show ?thesis by blast
qed

lemma marker_in_concat:
  assumes "\<forall>r\<in>set rs. r \<noteq> [] \<and> hd r = 10" "sublist failureMarker (concat rs)"
  shows "\<exists>r\<in>set rs. sublist failureMarker r"
  using assms
proof (induction rs)
  case Nil
  then show ?case
    using failureMarker_hd(1) by simp
next
  case (Cons r rs)
  show ?case
  proof (cases rs)
    case Nil
    with Cons.prems(2) show ?thesis by simp
  next
    case (Cons r' rs')
    with Cons.prems(1) obtain t where t: "r' = 10 # t"
      by (cases r') auto
    with Cons have c: "concat rs = 10 # (t @ concat rs')"
      by simp
    with Cons.prems(2) have "sublist failureMarker r \<or> sublist failureMarker (t @ concat rs')"
      using sublist_separator [OF failureMarker_chars(1), of r "t @ concat rs'"] by simp
    then show ?thesis
    proof
      assume "sublist failureMarker r"
      then show ?thesis by simp
    next
      assume "sublist failureMarker (t @ concat rs')"
      then have "sublist failureMarker (concat rs)"
        unfolding c by (simp add: sublist_Cons_right)
      with Cons.IH Cons.prems(1) show ?thesis by simp
    qed
  qed
qed

lemma lazyCapture_prefix: "lazyCapture nextLabel s = Some captured \<Longrightarrow> prefix captured s"
  by (induction s arbitrary: captured) (auto split: if_splits)

lemma matchField_sublist: "matchField label nextLabel s = Some captured \<Longrightarrow> sublist captured s"
proof -
  assume "matchField label nextLabel s = Some captured"
  then have "prefix captured (dropWhile isSpace (drop (length label) s))"
    by (auto simp: matchField_def lazyCapture_prefix split: if_splits)
  then have "sublist captured (dropWhile isSpace (drop (length label) s))"
    by (rule prefix_imp_sublist)
  moreover have "sublist (dropWhile isSpace (drop (length label) s)) (drop (length label) s)"
    by (rule sublist_dropWhile)
  moreover have "sublist (drop (length label) s) s"
    by (rule sublist_drop)
  ultimately show ?thesis
    using sublist_order.order_trans by blast
qed

lemma matchSummary_sublist: "matchSummary s = Some captured \<Longrightarrow> sublist captured s"
proof -
  assume "matchSummary s = Some captured"
  then have c: "captured = takeWhile (\<lambda>c. \<not> isLineTerminator c) (dropWhile isSpace (drop 8 s))"
    by (auto simp: matchSummary_def split: if_splits)
  have "sublist captured (dropWhile isSpace (drop 8 s))"
    unfolding c by (rule sublist_takeWhile)
  moreover have "sublist (dropWhile isSpace (drop 8 s)) (drop 8 s)"
    by (rule sublist_dropWhile)
  moreover have "sublist (drop 8 s) s"
    by (rule sublist_drop)
  ultimately show ?thesis
    using sublist_order.order_trans by blast
qed

lemma regexSearch_sublist:
  assumes "regexSearch m s = Some captured" "\<And>t c. m t = Some c \<Longrightarrow> sublist c t"
  shows "sublist captured s"
proof -
  from regexSearch_Some_suffix [OF assms(1)] obtain pre post where p: "s = pre @ post" "m post = Some captured"
    by (elim exE conjE)
  from assms(2) [OF p(2)] have "sublist captured post" .
  moreover have "sublist post s"
    unfolding p(1) by simp
  ultimately show ?thesis
    using sublist_order.order_trans by blast
qed

lemma fieldMatch_sublist:
  "regexSearch (matchField label nextLabel) s = Some captured \<Longrightarrow> sublist captured s"
  "regexSearch matchSummary s = Some captured \<Longrightarrow> sublist captured s"
  using regexSearch_sublist [of "matchField label nextLabel" s captured] matchField_sublist
    regexSearch_sublist [of matchSummary s captured] matchSummary_sublist
  by blast+

lemma marker_not_NA: "\<not> sublist failureMarker (asc ''N/A'')"
  by (rule marker_short) (simp add: asc_def)

lemma marker_in_orNA:
  assumes "sublist failureMarker (orNA m)" "\<And>captured. m = Some captured \<Longrightarrow> sublist captured s"
  shows "sublist failureMarker s"
proof (cases m)
  case None
  with assms(1) marker_not_NA show ?thesis
    by (simp add: orNA_def)
next
  case (Some captured)
  with assms(1) have "sublist failureMarker (trim captured)"
    by (simp add: orNA_def)
  then have "sublist failureMarker captured"
    using sublist_trim sublist_order.order_trans by blast
  with assms(2) [OF Some] show ?thesis
    using sublist_order.order_trans by blast
qed

text \<open>
  A marker in one of the seven fields after the name is a marker in the block: each field
  is a part of the block, trimmed.
\<close>

lemma marker_in_field:
  assumes "sublist failureMarker (concept (extractIdea fullBlock index))
       \<or> sublist failureMarker (keyFeatures (extractIdea fullBlock index))
       \<or> sublist failureMarker (targetMarket (extractIdea fullBlock index))
       \<or> sublist failureMarker (usp (extractIdea fullBlock index))
       \<or> sublist failureMarker (monetization (extractIdea fullBlock index))
       \<or> sublist failureMarker (challenges (extractIdea fullBlock index))
       \<or> sublist failureMarker (summary (extractIdea fullBlock index))"
  shows "sublist failureMarker fullBlock"
  using assms
  by (auto simp: extractIdea_def conceptMatch_def keyFeaturesMatch_def targetMarketMatch_def
      uspMatch_def monetizationMatch_def challengesMatch_def summaryMatch_def
      intro: marker_in_orNA fieldMatch_sublist)

lemma matchDelimiter_append:
  assumes "matchDelimiter x = Some r"
  shows "matchDelimiter (x @ y) = Some (r @ y)"
proof -
  from assms obtain t where
    d: "takeWhile isDigit x \<noteq> []" "dropWhile isDigit x = 46 # t"
       "prefix (asc ''Idea Name:'') (dropWhile isSpace t)" "r = drop 10 (dropWhile isSpace t)"
    by (auto simp: matchDelimiter_def split: if_splits list.splits)
  have nd: "\<not> isDigit 46"
    by (simp add: isDigit_def)
  from d(2) have "46 \<in> set x"
    by (metis list.set_intros(1) set_dropWhileD)
  have tw: "takeWhile isDigit (x @ y) = takeWhile isDigit x"
    using takeWhile_append1 [of 46 x isDigit y] \<open>46 \<in> set x\<close> nd by simp
  have dw: "dropWhile isDigit (x @ y) = 46 # t @ y"
    using dropWhile_append1 [of 46 x isDigit y] \<open>46 \<in> set x\<close> nd d(2) by simp
  from d(3) obtain z where z: "dropWhile isSpace t = asc ''Idea Name:'' @ z"
    by (auto simp: prefix_def)
  have len: "length (asc ''Idea Name:'') = 10"
    by (simp add: asc_def)
  have ns: "\<not> isSpace 73"
    by (simp add: isSpace_def)
  have "hd (dropWhile isSpace t) = 73" "dropWhile isSpace t \<noteq> []"
    unfolding z by (simp_all add: asc_def)
  then have "73 \<in> set t"
    by (metis hd_in_set set_dropWhileD)
  then have ds: "dropWhile isSpace (t @ y) = asc ''Idea Name:'' @ z @ y"
    using dropWhile_append1 [of 73 t isSpace y] ns z by simp
  have "r = z"
    using d(4) z len by simp
  then show ?thesis
    using d(1) by (simp add: matchDelimiter_def tw dw ds len)
qed

lemma matchDelimiter_suffix: "matchDelimiter s = Some r \<Longrightarrow> set r \<subseteq> set s"
proof -
  assume "matchDelimiter s = Some r"
  then obtain t where d: "dropWhile isDigit s = 46 # t" "r = drop 10 (dropWhile isSpace t)"
    by (auto simp: matchDelimiter_def split: if_splits list.splits)
  have "set r \<subseteq> set t"
    unfolding d(2) by (meson set_drop_subset set_dropWhileD subsetI subset_trans in_mono)
  moreover have "set t \<subseteq> set s"
    using d(1) by (metis list.set_intros(2) set_dropWhileD subsetI)
  ultimately show ?thesis by simp
qed

lemma noLabel_iff: "noLabel s \<longleftrightarrow> (\<forall>k<length s. matchDelimiter (drop k s) = None)"
proof (induction s)
  case Nil
  then show ?case by simp
next
  case (Cons c cs)
  have "(\<forall>k<length (c # cs). matchDelimiter (drop k (c # cs)) = None)
      \<longleftrightarrow> matchDelimiter (c # cs) = None \<and> (\<forall>k<length cs. matchDelimiter (drop k cs) = None)"
  proof
    assume a: "\<forall>k<length (c # cs). matchDelimiter (drop k (c # cs)) = None"
    have "matchDelimiter (drop 0 (c # cs)) = None"
      using a by blast
    moreover have "matchDelimiter (drop k cs) = None" if "k < length cs" for k
      using a [rule_format, of "Suc k"] that by simp
    ultimately show "matchDelimiter (c # cs) = None \<and> (\<forall>k<length cs. matchDelimiter (drop k cs) = None)"
      by simp
  next
    assume a: "matchDelimiter (c # cs) = None \<and> (\<forall>k<length cs. matchDelimiter (drop k cs) = None)"
    show "\<forall>k<length (c # cs). matchDelimiter (drop k (c # cs)) = None"
    proof (intro allI impI)
      fix k assume "k < length (c # cs)"
      with a show "matchDelimiter (drop k (c # cs)) = None"
        by (cases k) auto
    qed
  qed
  with Cons show ?case by simp
qed

lemma splitIdeas_pieces:
  assumes "\<forall>k<length piece. matchDelimiter (drop k (piece @ s)) = None"
  shows "\<forall>p\<in>set (splitIdeas piece s). noLabel p"
  using assms
proof (induction piece s rule: splitIdeas.induct)
  case (1 piece)
  then show ?case by (simp add: noLabel_iff)
next
  case (2 piece c cs)
  show ?case
  proof (cases "matchDelimiter (c # cs)")
    case None
    have "\<forall>k<length (piece @ [c]). matchDelimiter (drop k ((piece @ [c]) @ cs)) = None"
    proof (intro allI impI)
      fix k assume k: "k < length (piece @ [c])"
      show "matchDelimiter (drop k ((piece @ [c]) @ cs)) = None"
      proof (cases "k < length piece")
        case True
        with "2.prems" show ?thesis by simp
      next
        case False
        with k have "k = length piece" by simp
        with None show ?thesis by simp
      qed
    qed
    with "2.IH"(1) [OF None] None show ?thesis by simp
  next
    case (Some rest)
    have "matchDelimiter (drop k piece) = None" if k: "k < length piece" for k
    proof (rule ccontr)
      assume "matchDelimiter (drop k piece) \<noteq> None"
      then obtain r where "matchDelimiter (drop k piece) = Some r" by auto
      then have "matchDelimiter (drop k piece @ c # cs) = Some (r @ c # cs)"
        by (rule matchDelimiter_append)
      moreover have "drop k (piece @ c # cs) = drop k piece @ c # cs"
        using k by simp
      ultimately show False
        using "2.prems" k by simp
    qed
    then have "noLabel piece"
      by (simp add: noLabel_iff)
    moreover have "\<forall>p\<in>set (splitIdeas [] rest). noLabel p"
      using "2.IH"(2) [OF Some] by simp
    ultimately show ?thesis
      using Some by simp
  qed
qed

lemma splitIdeas_set: "p \<in> set (splitIdeas piece s) \<Longrightarrow> set p \<subseteq> set piece \<union> set s"
proof (induction piece s rule: splitIdeas.induct)
  case (1 piece)
  then show ?case by simp
next
  case (2 piece c cs)
  show ?case
  proof (cases "matchDelimiter (c # cs)")
    case None
    with 2 show ?thesis by auto
  next
    case (Some rest)
    from matchDelimiter_suffix [OF Some] have "set rest \<subseteq> set (c # cs)" .
    with 2 Some show ?thesis by auto
  qed
qed

lemma ideaBlocks_noLabel: "block \<in> set (ideaBlocks text) \<Longrightarrow> noLabel block"
  using splitIdeas_pieces [of "[]" "cleanedText text"] by (simp add: ideaBlocks_def)

lemma collapseSpaces_set: "set (collapseSpaces s) \<subseteq> insert 32 (set s)"
proof (induction s rule: collapseSpaces.induct)
  case 1
  then show ?case by simp
next
  case (2 c cs)
  have "set (dropWhile isSpace cs) \<subseteq> set cs"
    by (auto dest: set_dropWhileD)
  with 2 show ?case by (cases "isSpace c") auto
qed

lemma ideaBlocks_set: "block \<in> set (ideaBlocks text) \<Longrightarrow> set block \<subseteq> insert 32 (set text)"
proof -
  assume "block \<in> set (ideaBlocks text)"
  then have "block \<in> set (splitIdeas [] (cleanedText text))"
    by (simp add: ideaBlocks_def)
  then have "set block \<subseteq> set (cleanedText text)"
    using splitIdeas_set by fastforce
  moreover have "set (cleanedText text) \<subseteq> set (collapseSpaces text)"
    unfolding cleanedText_def using set_mono_sublist [OF sublist_trim] .
  ultimately show ?thesis
    using collapseSpaces_set [of "text"] by blast
qed

lemma delimiter_matches: "matchDelimiter (asc ''1. Idea Name:'' @ v) = Some v"
proof -
  have a1: "takeWhile isDigit (asc ''1. Idea Name:'' @ v) = [49]"
    by (simp add: asc_def isDigit_def)
  have a2: "dropWhile isDigit (asc ''1. Idea Name:'' @ v) = 46 # 32 # asc ''Idea Name:'' @ v"
    by (simp add: asc_def isDigit_def)
  have a3: "dropWhile isSpace (asc ''Idea Name:'' @ v) = asc ''Idea Name:'' @ v"
    by (simp add: asc_def isSpace_def)
  have a4: "length (asc ''Idea Name:'') = 10"
    by (simp add: asc_def)
  have a5: "isSpace 32"
    by (simp add: isSpace_def)
  show ?thesis
    by (simp add: matchDelimiter_def a1 a2 a3 a4 a5)
qed

lemma marker_not_in_block:
  assumes "noLabel block"
  shows "\<not> sublist failureMarker (asc ''Idea Name:'' @ trim block)"
proof
  assume "sublist failureMarker (asc ''Idea Name:'' @ trim block)"
  moreover have "49 \<notin> set (asc ''Idea Name:'')"
    by (simp add: asc_def)
  ultimately have "sublist failureMarker (trim block)"
    by (rule marker_skip [rotated])
  then have "sublist failureMarker block"
    using sublist_trim sublist_order.order_trans by blast
  then obtain u v where "block = u @ failureMarker @ v"
    by (auto simp: sublist_def)
  moreover have "failureMarker = asc ''1. Idea Name:'' @ asc '' N/A''"
    by (simp add: failureMarker_def asc_def)
  ultimately have b: "block = u @ asc ''1. Idea Name:'' @ (asc '' N/A'' @ v)"
    by simp
  then have "drop (length u) block = asc ''1. Idea Name:'' @ (asc '' N/A'' @ v)"
    by simp
  then have m: "matchDelimiter (drop (length u) block) \<noteq> None"
    by (simp only: delimiter_matches) simp
  have "length block = length u + (13 + (4 + length v))"
    by (subst b) (simp add: asc_def)
  then have "length u < length block"
    by simp
  with assms have "matchDelimiter (drop (length u) block) = None"
    unfolding noLabel_iff by (elim allE [of _ "length u"]) simp
  with m show False ..
qed

lemma marker_not_in_default_name: "\<not> sublist failureMarker (asc ''Idea '' @ showNat n)"
proof
  assume "sublist failureMarker (asc ''Idea '' @ showNat n)"
  then have "set failureMarker \<subseteq> set (asc ''Idea '' @ showNat n)"
    by (rule set_mono_sublist)
  then have "47 \<in> set (asc ''Idea '') \<or> 47 \<in> set (showNat n)"
    using failureMarker_chars(3) by auto
  moreover have "47 \<notin> set (asc ''Idea '')"
    by (simp add: asc_def)
  moreover have "47 \<notin> set (showNat n)"
    using showNat_digits [of n] by auto
  ultimately show False by simp
qed

lemma marker_in_plain_name:
  assumes "42 \<notin> set fullBlock" "45 \<notin> set fullBlock"
    "sublist failureMarker (ideaName (extractIdea fullBlock index))"
  shows "sublist failureMarker fullBlock"
proof (cases "ideaNameMatch fullBlock")
  case None
  with assms(3) marker_not_in_default_name show ?thesis
    by (simp add: extractIdea_def)
next
  case (Some captured)
  then have sub: "sublist captured fullBlock"
    unfolding ideaNameMatch_def by (rule fieldMatch_sublist(1))
  then have "set captured \<subseteq> set fullBlock"
    by (rule set_mono_sublist)
  with assms(1,2) have "filter (\<lambda>c. c \<noteq> 42 \<and> c \<noteq> 45) captured = captured"
    by (intro filter_True) auto
  with Some assms(3) have "sublist failureMarker (trim captured)"
    by (simp add: extractIdea_def)
  then have "sublist failureMarker captured"
    using sublist_trim sublist_order.order_trans by blast
  with sub show ?thesis
    using sublist_order.order_trans by blast
qed

lemma trim_set: "set (trim s) \<subseteq> set s"
  using set_mono_sublist [OF sublist_trim] .

text \<open>A marker in the output lies in the name of a block that holds an asterisk or a hyphen.\<close>

lemma marker_in_output:
  assumes "sublist failureMarker (formatResponse text)"
  shows "\<exists>(index, block)\<in>set (enumerate 0 (ideaBlocks text)).
           sublist failureMarker (ideaName (extractIdea (asc ''Idea Name:'' @ trim block) index))
         \<and> (42 \<in> set block \<or> 45 \<in> set block)"
proof -
  let ?records = "map (\<lambda>(index, block). formatBlock block index) (enumerate 0 (ideaBlocks text))"
  have "sublist failureMarker (concat ?records)"
    using assms sublist_trim sublist_order.order_trans unfolding formatResponse_def by blast
  moreover have "\<forall>r\<in>set ?records. r \<noteq> [] \<and> hd r = 10"
    by (auto simp: formatBlock_def renderIdea_def nl_def)
  ultimately obtain r where r: "r \<in> set ?records" "sublist failureMarker r"
    using marker_in_concat by blast
  then obtain index block where ib: "(index, block) \<in> set (enumerate 0 (ideaBlocks text))"
      "r = formatBlock block index"
    by auto
  then have blk: "block \<in> set (ideaBlocks text)"
    by (auto simp: in_set_enumerate_eq)
  let ?fullBlock = "asc ''Idea Name:'' @ trim block"
  have nm: "\<not> sublist failureMarker ?fullBlock"
    using marker_not_in_block [OF ideaBlocks_noLabel [OF blk]] .
  from r(2) ib(2) have "sublist failureMarker (renderIdea index (extractIdea ?fullBlock index))"
    by (simp add: formatBlock_def)
  from marker_in_record [OF this] marker_in_field [of ?fullBlock index] nm
  have name: "sublist failureMarker (ideaName (extractIdea ?fullBlock index))"
    by blast
  have "42 \<in> set block \<or> 45 \<in> set block"
  proof (rule ccontr)
    assume "\<not> (42 \<in> set block \<or> 45 \<in> set block)"
    then have "42 \<notin> set ?fullBlock" "45 \<notin> set ?fullBlock"
      using trim_set [of block] by (auto simp: asc_def)
    from marker_in_plain_name [OF this name] nm show False by simp
  qed
  with name ib(1) show ?thesis by blast
qed

text \<open>
  Claim C10, as the code has it. The output of the formatter holds the failure marker only
  inside the name of an idea whose block holds an asterisk or a hyphen: the marker then
  comes from stripping these characters out of the captured name. For a text without
  asterisks and hyphens the output never holds the marker, and the test of line 289 accepts
  it. No block holds a match of the splitter's pattern: every occurrence in the cleaned text
  is used up as a delimiter. Every rendered heading starts with two asterisks, the number,
  \<^verbatim>\<open>. Idea Name:\<close>, two asterisks and a blank.
\<close>

theorem marker_only_from_stripped_name:
  "(includesStr (formatResponse text) failureMarker \<longrightarrow>
      (\<exists>(index, block)\<in>set (enumerate 0 (ideaBlocks text)).
          includesStr (ideaName (extractIdea (asc ''Idea Name:'' @ trim block) index)) failureMarker
        \<and> (42 \<in> set block \<or> 45 \<in> set block)))
   \<and> (42 \<notin> set text \<and> 45 \<notin> set text \<longrightarrow>
        \<not> includesStr (formatResponse text) failureMarker \<and> responseComplete (formatResponse text))
   \<and> (\<forall>block\<in>set (ideaBlocks text). noLabel block)
   \<and> prefix (nl @ asc ''**'' @ showNat (index + 1) @ asc ''. Idea Name:** '') (formatBlock anyBlock index)"
proof (intro conjI impI ballI)
  assume "includesStr (formatResponse text) failureMarker"
  then show "\<exists>(index, block)\<in>set (enumerate 0 (ideaBlocks text)).
          includesStr (ideaName (extractIdea (asc ''Idea Name:'' @ trim block) index)) failureMarker
        \<and> (42 \<in> set block \<or> 45 \<in> set block)"
    unfolding includesStr_def by (rule marker_in_output)
next
  assume plain: "42 \<notin> set text \<and> 45 \<notin> set text"
  show no: "\<not> includesStr (formatResponse text) failureMarker"
  proof
    assume "includesStr (formatResponse text) failureMarker"
    then have "sublist failureMarker (formatResponse text)"
      by (simp add: includesStr_def)
    from marker_in_output [OF this] obtain index block where
      b: "(index, block) \<in> set (enumerate 0 (ideaBlocks text))" "42 \<in> set block \<or> 45 \<in> set block"
      by auto
    then have "block \<in> set (ideaBlocks text)"
      by (auto simp: in_set_enumerate_eq)
    then have "set block \<subseteq> insert 32 (set text)"
      by (rule ideaBlocks_set)
    with b(2) plain show False by auto
  qed
  then show "responseComplete (formatResponse text)"
    by (simp add: responseComplete_def)
next
  fix block
  assume "block \<in> set (ideaBlocks text)"
  then show "noLabel block"
    by (rule ideaBlocks_noLabel)
next
  show "prefix (nl @ asc ''**'' @ showNat (index + 1) @ asc ''. Idea Name:** '') (formatBlock anyBlock index)"
    by (simp add: formatBlock_def renderIdea_def prefix_def)
qed

text \<open>The theorem at a text with one idea and no asterisk or hyphen.\<close>

theorem marker_plain_text_witness:
  "42 \<notin> set (asc ''1. Idea Name: Solar Kit Concept: a kit'')
   \<and> 45 \<notin> set (asc ''1. Idea Name: Solar Kit Concept: a kit'')
   \<and> \<not> includesStr (formatResponse (asc ''1. Idea Name: Solar Kit Concept: a kit'')) failureMarker
   \<and> responseComplete (formatResponse (asc ''1. Idea Name: Solar Kit Concept: a kit''))"
proof -
  have p: "42 \<notin> set (asc ''1. Idea Name: Solar Kit Concept: a kit'')
      \<and> 45 \<notin> set (asc ''1. Idea Name: Solar Kit Concept: a kit'')"
    by (simp add: asc_def)
  have "42 \<notin> set (asc ''1. Idea Name: Solar Kit Concept: a kit'')
      \<and> 45 \<notin> set (asc ''1. Idea Name: Solar Kit Concept: a kit'') \<longrightarrow>
      \<not> includesStr (formatResponse (asc ''1. Idea Name: Solar Kit Concept: a kit'')) failureMarker
      \<and> responseComplete (formatResponse (asc ''1. Idea Name: Solar Kit Concept: a kit''))"
    by (rule conjunct1 [OF conjunct2 [OF marker_only_from_stripped_name [where index = 0 and anyBlock = "[]"]]])
  from mp [OF this p] p show ?thesis
    by (intro conjI) (erule conjunct1, erule conjunct2, erule conjunct1, erule conjunct2)
qed

lemma starred_blocks: "ideaBlocks (asc ''1. Idea* Name: N/A'') = [asc ''1. Idea* Name: N/A'']"
proof -
  have c: "cleanedText (asc ''1. Idea* Name: N/A'') = asc ''1. Idea* Name: N/A''"
    by (simp add: cleanedText_def trim_def asc_def isSpace_def)
  have n: "noLabel (asc ''1. Idea* Name: N/A'')"
    by (simp add: matchDelimiter_def asc_def isDigit_def isSpace_def)
  have t: "trim (asc ''1. Idea* Name: N/A'') \<noteq> []"
    by (simp add: trim_def asc_def isSpace_def)
  show ?thesis
    using n t by (simp add: ideaBlocks_def c noLabel_split)
qed

lemma starred_record:
  "extractIdea (asc ''Idea Name:'' @ trim (asc ''1. Idea* Name: N/A'')) 0
   = \<lparr> ideaName = asc ''1. Idea Name: N/A'', concept = asc ''N/A'', keyFeatures = asc ''N/A'',
       targetMarket = asc ''N/A'', usp = asc ''N/A'', monetization = asc ''N/A'',
       challenges = asc ''N/A'', summary = asc ''N/A'' \<rparr>"
proof -
  have t: "asc ''Idea Name:'' @ trim (asc ''1. Idea* Name: N/A'') = asc ''Idea Name:1. Idea* Name: N/A''"
    by (simp add: trim_def asc_def isSpace_def)
  have "ideaNameMatch (asc ''Idea Name:1. Idea* Name: N/A'') = Some (asc ''1. Idea* Name: N/A'')"
    by (simp add: ideaNameMatch_def matchField_def startsWithCI_def canonicalize_def lookahead_def
        isLineTerminator_def asc_def isSpace_def)
  moreover have "trim (filter (\<lambda>c. c \<noteq> 42 \<and> c \<noteq> 45) (asc ''1. Idea* Name: N/A'')) = asc ''1. Idea Name: N/A''"
    by (simp add: trim_def asc_def isSpace_def)
  moreover have "conceptMatch (asc ''Idea Name:1. Idea* Name: N/A'') = None"
    by (simp add: conceptMatch_def matchField_def startsWithCI_def canonicalize_def asc_def)
  moreover have "keyFeaturesMatch (asc ''Idea Name:1. Idea* Name: N/A'') = None"
    by (simp add: keyFeaturesMatch_def matchField_def startsWithCI_def canonicalize_def asc_def)
  moreover have "targetMarketMatch (asc ''Idea Name:1. Idea* Name: N/A'') = None"
    by (simp add: targetMarketMatch_def matchField_def startsWithCI_def canonicalize_def asc_def)
  moreover have "uspMatch (asc ''Idea Name:1. Idea* Name: N/A'') = None"
    by (simp add: uspMatch_def matchField_def startsWithCI_def canonicalize_def asc_def)
  moreover have "monetizationMatch (asc ''Idea Name:1. Idea* Name: N/A'') = None"
    by (simp add: monetizationMatch_def matchField_def startsWithCI_def canonicalize_def asc_def)
  moreover have "challengesMatch (asc ''Idea Name:1. Idea* Name: N/A'') = None"
    by (simp add: challengesMatch_def matchField_def startsWithCI_def canonicalize_def asc_def)
  moreover have "summaryMatch (asc ''Idea Name:1. Idea* Name: N/A'') = None"
    by (simp add: summaryMatch_def matchSummary_def startsWithCI_def canonicalize_def asc_def)
  ultimately show ?thesis
    by (simp add: extractIdea_def t orNA_def)
qed

lemma starred_output:
  "formatResponse (asc ''1. Idea* Name: N/A'')
   = asc ''**1. Idea Name:** '' @ failureMarker
     @ asc ''\<newline>\<newline>  **Concept:** N/A\<newline>\<newline>  **Key Features:** N/A\<newline>\<newline>  **Target Market:** N/A\<newline>\<newline>  **Unique Value Proposition:** N/A\<newline>\<newline>  **Monetization:** N/A\<newline>\<newline>  **Potential Challenges/Considerations:** N/A\<newline>\<newline>  **Summary:** N/A\<newline>\<newline>---''"
proof -
  have "formatResponse (asc ''1. Idea* Name: N/A'')
      = trim (renderIdea 0 \<lparr> ideaName = asc ''1. Idea Name: N/A'', concept = asc ''N/A'',
          keyFeatures = asc ''N/A'', targetMarket = asc ''N/A'', usp = asc ''N/A'',
          monetization = asc ''N/A'', challenges = asc ''N/A'', summary = asc ''N/A'' \<rparr>)"
    by (simp add: formatResponse_def starred_blocks formatBlock_def starred_record)
  also have "\<dots> = asc ''**1. Idea Name:** '' @ failureMarker
     @ asc ''\<newline>\<newline>  **Concept:** N/A\<newline>\<newline>  **Key Features:** N/A\<newline>\<newline>  **Target Market:** N/A\<newline>\<newline>  **Unique Value Proposition:** N/A\<newline>\<newline>  **Monetization:** N/A\<newline>\<newline>  **Potential Challenges/Considerations:** N/A\<newline>\<newline>  **Summary:** N/A\<newline>\<newline>---''"
    by (simp add: renderIdea_def nl_def trim_def asc_def isSpace_def showNat.simps failureMarker_def)
  finally show ?thesis .
qed

text \<open>
  Claim C10 as stated fails: the text \<^verbatim>\<open>1. Idea* Name: N/A\<close> holds no label, its one
  block is rendered with the name \<^verbatim>\<open>1. Idea Name: N/A\<close> (the asterisk is stripped), the
  output holds the failure marker and the test of line 289 rejects it.
\<close>

theorem marker_in_output_counterexample:
  "includesStr (formatResponse (asc ''1. Idea* Name: N/A'')) failureMarker
   \<and> \<not> responseComplete (formatResponse (asc ''1. Idea* Name: N/A''))"
proof -
  have m: "includesStr (formatResponse (asc ''1. Idea* Name: N/A'')) failureMarker"
    unfolding starred_output includesStr_def by (rule sublist_appendI)
  have "39 \<notin> set (formatResponse (asc ''1. Idea* Name: N/A''))"
    unfolding starred_output by (simp add: asc_def failureMarker_def)
  moreover have "39 \<in> set (asc ''I've successfully added'')"
    by (simp add: asc_def)
  ultimately have "\<not> includesStr (formatResponse (asc ''1. Idea* Name: N/A'')) (asc ''I've successfully added'')"
    unfolding includesStr_def using set_mono_sublist by fastforce
  with m show ?thesis
    by (simp add: responseComplete_def)
qed

section \<open>The name of an idea\<close>

lemma lineTerminator_isSpace: "isLineTerminator c \<Longrightarrow> isSpace c"
  by (auto simp: isLineTerminator_def isSpace_def)

lemma collapseSpaces_no_terminator: "c \<in> set (collapseSpaces s) \<Longrightarrow> \<not> isLineTerminator c"
proof (induction s rule: collapseSpaces.induct)
  case 1
  then show ?case by simp
next
  case (2 d ds)
  have sp: "\<not> isLineTerminator 32"
    by (simp add: isLineTerminator_def)
  show ?case
  proof (cases "isSpace d")
    case True
    with 2 sp show ?thesis by auto
  next
    case False
    with 2 lineTerminator_isSpace [of d] show ?thesis by auto
  qed
qed

lemma block_no_terminator:
  assumes "block \<in> set (ideaBlocks text)" "c \<in> set block"
  shows "\<not> isLineTerminator c"
proof -
  from assms(1) have "block \<in> set (splitIdeas [] (cleanedText text))"
    by (simp add: ideaBlocks_def)
  then have "set block \<subseteq> set (cleanedText text)"
    using splitIdeas_set by fastforce
  moreover have "set (cleanedText text) \<subseteq> set (collapseSpaces text)"
    unfolding cleanedText_def using set_mono_sublist [OF sublist_trim] .
  ultimately have "c \<in> set (collapseSpaces text)"
    using assms(2) by blast
  then show ?thesis
    by (rule collapseSpaces_no_terminator)
qed

lemma lazyCapture_total:
  "\<forall>c\<in>set s. \<not> isLineTerminator c \<Longrightarrow> \<exists>captured. lazyCapture nextLabel s = Some captured"
  by (induction s) auto

lemma regexSearch_at_start: "m s = Some r \<Longrightarrow> regexSearch m s = Some r"
  by (cases s) simp_all

lemma trim_no_leading_space: "dropWhile isSpace (trim s) = trim s"
proof (cases "trim s = []")
  case True
  then show ?thesis by simp
next
  case False
  have "trim (trim s) = trim s"
    by (rule trim_trim)
  then have "rev (dropWhile isSpace (rev (dropWhile isSpace (trim s)))) = trim s"
    by (simp add: trim_def)
  then have "length (trim s) \<le> length (dropWhile isSpace (trim s))"
    by (metis length_dropWhile_le length_rev)
  then show ?thesis
    using length_dropWhile_le [of isSpace "trim s"]
    by (metis append_eq_conv_conj le_antisym takeWhile_dropWhile_id length_append
        add_diff_cancel_right' diff_is_0_eq' length_0_conv self_append_conv2)
qed

text \<open>
  The name pattern always matches the text that line 27 builds: the label is put in front,
  and after the white space of the block has been collapsed no line terminator is left to
  stop the capture before the end of the text.
\<close>

lemma name_pattern_matches:
  assumes "\<forall>c\<in>set b. \<not> isLineTerminator c"
  shows "ideaNameMatch (asc ''Idea Name:'' @ trim b) = lazyCapture (asc ''Concept:'') (trim b)
       \<and> (\<exists>captured. lazyCapture (asc ''Concept:'') (trim b) = Some captured)"
proof -
  have "\<forall>c\<in>set (trim b). \<not> isLineTerminator c"
    using assms trim_set by blast
  then obtain captured where c: "lazyCapture (asc ''Concept:'') (trim b) = Some captured"
    using lazyCapture_total by blast
  have "startsWithCI (asc ''Idea Name:'') (asc ''Idea Name:'' @ trim b)"
    by (simp add: startsWithCI_def)
  then have "matchField (asc ''Idea Name:'') (asc ''Concept:'') (asc ''Idea Name:'' @ trim b)
      = Some captured"
    by (simp add: matchField_def trim_no_leading_space c)
  then have "ideaNameMatch (asc ''Idea Name:'' @ trim b) = Some captured"
    unfolding ideaNameMatch_def by (rule regexSearch_at_start)
  with c show ?thesis
    by simp
qed

text \<open>The branch of line 42 for a name pattern that does not match.\<close>

lemma name_fallback:
  "ideaNameMatch fullBlock = None \<Longrightarrow>
   ideaName (extractIdea fullBlock index) = asc ''Idea '' @ showNat (index + 1)"
  by (simp add: extractIdea_def)

lemma trim_filter_stripped: "42 \<notin> set (trim (filter (\<lambda>c. c \<noteq> 42 \<and> c \<noteq> 45) s)) \<and> 45 \<notin> set (trim (filter (\<lambda>c. c \<noteq> 42 \<and> c \<noteq> 45) s))"
  using trim_set [of "filter (\<lambda>c. c \<noteq> 42 \<and> c \<noteq> 45) s"] by auto

lemma empty_name_blocks:
  "ideaBlocks (asc ''1. Idea Name: Concept: x'') = [asc '' Concept: x'']"
proof -
  have c: "cleanedText (asc ''1. Idea Name: Concept: x'') = asc ''1. Idea Name:'' @ asc '' Concept: x''"
    by (simp add: cleanedText_def trim_def asc_def isSpace_def)
  have n: "noLabel (asc '' Concept: x'')"
    by (simp add: matchDelimiter_def asc_def isDigit_def)
  have "asc ''1. Idea Name:'' @ asc '' Concept: x'' = 49 # tl (asc ''1. Idea Name:'' @ asc '' Concept: x'')"
    by (simp add: asc_def)
  then obtain t where t: "asc ''1. Idea Name:'' @ asc '' Concept: x'' = 49 # t"
    by blast
  have "matchDelimiter (49 # t) = Some (asc '' Concept: x'')"
    using delimiter_matches [of "asc '' Concept: x''"] t by simp
  then have "splitIdeas [] (49 # t) = [[], asc '' Concept: x'']"
    using n by (simp add: noLabel_split)
  then show ?thesis
    unfolding ideaBlocks_def c t by (simp add: trim_def) (simp add: asc_def isSpace_def)
qed

lemma empty_name_record:
  "extractIdea (asc ''Idea Name:'' @ trim (asc '' Concept: x'')) 0
   = \<lparr> ideaName = [], concept = asc ''x'', keyFeatures = asc ''N/A'',
       targetMarket = asc ''N/A'', usp = asc ''N/A'', monetization = asc ''N/A'',
       challenges = asc ''N/A'', summary = asc ''N/A'' \<rparr>"
proof -
  have t: "asc ''Idea Name:'' @ trim (asc '' Concept: x'') = asc ''Idea Name:Concept: x''"
    by (simp add: trim_def asc_def isSpace_def)
  have "ideaNameMatch (asc ''Idea Name:Concept: x'') = Some []"
    by (simp add: ideaNameMatch_def matchField_def startsWithCI_def canonicalize_def lookahead_def
        isLineTerminator_def asc_def isSpace_def)
  moreover have "trim (filter (\<lambda>c. c \<noteq> 42 \<and> c \<noteq> 45) []) = []"
    by (simp add: trim_def)
  moreover have "conceptMatch (asc ''Idea Name:Concept: x'') = Some (asc ''x'')"
    by (simp add: conceptMatch_def matchField_def startsWithCI_def canonicalize_def lookahead_def
        isLineTerminator_def asc_def isSpace_def)
  moreover have "trim (asc ''x'') = asc ''x''"
    by (simp add: trim_def asc_def isSpace_def)
  moreover have "keyFeaturesMatch (asc ''Idea Name:Concept: x'') = None"
    by (simp add: keyFeaturesMatch_def matchField_def startsWithCI_def canonicalize_def asc_def)
  moreover have "targetMarketMatch (asc ''Idea Name:Concept: x'') = None"
    by (simp add: targetMarketMatch_def matchField_def startsWithCI_def canonicalize_def asc_def)
  moreover have "uspMatch (asc ''Idea Name:Concept: x'') = None"
    by (simp add: uspMatch_def matchField_def startsWithCI_def canonicalize_def asc_def)
  moreover have "monetizationMatch (asc ''Idea Name:Concept: x'') = None"
    by (simp add: monetizationMatch_def matchField_def startsWithCI_def canonicalize_def asc_def)
  moreover have "challengesMatch (asc ''Idea Name:Concept: x'') = None"
    by (simp add: challengesMatch_def matchField_def startsWithCI_def canonicalize_def asc_def)
  moreover have "summaryMatch (asc ''Idea Name:Concept: x'') = None"
    by (simp add: summaryMatch_def matchSummary_def startsWithCI_def canonicalize_def asc_def)
  ultimately show ?thesis
    by (simp add: extractIdea_def t orNA_def)
qed

lemma empty_name_output:
  "formatResponse (asc ''1. Idea Name: Concept: x'')
   = asc ''**1. Idea Name:** \<newline>\<newline>  **Concept:** x\<newline>\<newline>  **Key Features:** N/A\<newline>\<newline>  **Target Market:** N/A\<newline>\<newline>  **Unique Value Proposition:** N/A\<newline>\<newline>  **Monetization:** N/A\<newline>\<newline>  **Potential Challenges/Considerations:** N/A\<newline>\<newline>  **Summary:** N/A\<newline>\<newline>---''"
proof -
  have "formatResponse (asc ''1. Idea Name: Concept: x'')
      = trim (renderIdea 0 \<lparr> ideaName = [], concept = asc ''x'', keyFeatures = asc ''N/A'',
          targetMarket = asc ''N/A'', usp = asc ''N/A'', monetization = asc ''N/A'',
          challenges = asc ''N/A'', summary = asc ''N/A'' \<rparr>)"
    by (simp add: formatResponse_def empty_name_blocks formatBlock_def empty_name_record)
  then show ?thesis
    by (simp add: renderIdea_def nl_def trim_def asc_def isSpace_def showNat.simps)
qed

text \<open>
  Claim C8 on the code. In the record of one idea, each of the seven fields after the name
  whose label does not occur in the text of the block (ignoring case) is \<^verbatim>\<open>N/A\<close>, and a
  name that the name pattern captures is rendered without its asterisks and hyphens,
  trimmed. The default \<^verbatim>\<open>Idea\<close> followed by the index plus one is never rendered: line 27
  puts the label \<^verbatim>\<open>Idea Name:\<close> in front of every block, so the name pattern matches for
  every block of every text, and the name is what stands between that label and the next
  \<^verbatim>\<open>Concept:\<close> or the end of the block, stripped and trimmed. A block that gives no
  name is rendered with an empty name.
\<close>

theorem missing_name_is_rendered_empty:
  "(\<not> labelFound (asc ''Concept:'') fullBlock \<longrightarrow> concept (extractIdea fullBlock index) = asc ''N/A'')
   \<and> (\<not> labelFound (asc ''Key Features:'') fullBlock \<longrightarrow>
        keyFeatures (extractIdea fullBlock index) = asc ''N/A'')
   \<and> (\<not> labelFound (asc ''Target Market:'') fullBlock \<longrightarrow>
        targetMarket (extractIdea fullBlock index) = asc ''N/A'')
   \<and> (\<not> labelFound (asc ''Unique Value Proposition:'') fullBlock \<longrightarrow>
        usp (extractIdea fullBlock index) = asc ''N/A'')
   \<and> (\<not> labelFound (asc ''Monetization:'') fullBlock \<longrightarrow>
        monetization (extractIdea fullBlock index) = asc ''N/A'')
   \<and> (\<not> labelFound (asc ''Potential Challenges/Considerations:'') fullBlock \<longrightarrow>
        challenges (extractIdea fullBlock index) = asc ''N/A'')
   \<and> (\<not> labelFound (asc ''Summary:'') fullBlock \<longrightarrow> summary (extractIdea fullBlock index) = asc ''N/A'')
   \<and> (\<forall>captured. ideaNameMatch fullBlock = Some captured \<longrightarrow>
        ideaName (extractIdea fullBlock index) = trim (filter (\<lambda>c. c \<noteq> 42 \<and> c \<noteq> 45) captured))
   \<and> (block \<in> set (ideaBlocks text) \<longrightarrow>
        (\<exists>captured.
            ideaNameMatch (asc ''Idea Name:'' @ trim block) = Some captured
          \<and> lazyCapture (asc ''Concept:'') (trim block) = Some captured
          \<and> ideaName (extractIdea (asc ''Idea Name:'' @ trim block) index)
              = trim (filter (\<lambda>c. c \<noteq> 42 \<and> c \<noteq> 45) captured))
        \<and> 42 \<notin> set (ideaName (extractIdea (asc ''Idea Name:'' @ trim block) index))
        \<and> 45 \<notin> set (ideaName (extractIdea (asc ''Idea Name:'' @ trim block) index)))
   \<and> formatBlock block index = renderIdea index (extractIdea (asc ''Idea Name:'' @ trim block) index)"
proof -
  have s: "labelFound (asc ''Summary:'') fullBlock = labelFound (asc ''summary:'') fullBlock"
    by (rule labelFound_canonical) (simp add: asc_def canonicalize_def)
  have su: "\<not> labelFound (asc ''Summary:'') fullBlock \<Longrightarrow> summaryMatch fullBlock = None"
    unfolding summaryMatch_def s using matchSummary_labelFound by fastforce
  have name: "(\<exists>captured.
            ideaNameMatch (asc ''Idea Name:'' @ trim block) = Some captured
          \<and> lazyCapture (asc ''Concept:'') (trim block) = Some captured
          \<and> ideaName (extractIdea (asc ''Idea Name:'' @ trim block) index)
              = trim (filter (\<lambda>c. c \<noteq> 42 \<and> c \<noteq> 45) captured))
        \<and> 42 \<notin> set (ideaName (extractIdea (asc ''Idea Name:'' @ trim block) index))
        \<and> 45 \<notin> set (ideaName (extractIdea (asc ''Idea Name:'' @ trim block) index))"
    if "block \<in> set (ideaBlocks text)"
  proof -
    have "\<forall>c\<in>set block. \<not> isLineTerminator c"
      using that block_no_terminator by blast
    from name_pattern_matches [OF this] obtain captured where
      m: "ideaNameMatch (asc ''Idea Name:'' @ trim block) = Some captured"
      and l: "lazyCapture (asc ''Concept:'') (trim block) = Some captured"
      by auto
    have n: "ideaName (extractIdea (asc ''Idea Name:'' @ trim block) index)
        = trim (filter (\<lambda>c. c \<noteq> 42 \<and> c \<noteq> 45) captured)"
      by (simp add: extractIdea_def m)
    show ?thesis
      using m l n trim_filter_stripped [of captured] by simp
  qed
  show ?thesis
    using su name
    by (simp add: extractIdea_def formatBlock_def orNA_None not_found_None conceptMatch_def
        keyFeaturesMatch_def targetMarketMatch_def uspMatch_def monetizationMatch_def
        challengesMatch_def)
qed

text \<open>
  The theorem at the text \<^verbatim>\<open>1. Idea Name: Concept: x\<close>, an idea without a name: its one
  block is rendered with an empty name, where line 42 has \<^verbatim>\<open>Idea 1\<close> for a missing
  name, with the concept \<^verbatim>\<open>x\<close> and with \<^verbatim>\<open>N/A\<close> in the fields whose labels are
  missing. At a block whose name is set in asterisks and holds a hyphen the name is
  rendered without them.
\<close>

theorem missing_name_witness:
  "asc '' Concept: x'' \<in> set (ideaBlocks (asc ''1. Idea Name: Concept: x''))
   \<and> ideaNameMatch (asc ''Idea Name:'' @ trim (asc '' Concept: x'')) = Some []
   \<and> ideaName (extractIdea (asc ''Idea Name:'' @ trim (asc '' Concept: x'')) 0) = []
   \<and> ideaName (extractIdea (asc ''Idea Name:'' @ trim (asc '' Concept: x'')) 0) \<noteq> asc ''Idea 1''
   \<and> \<not> labelFound (asc ''Summary:'') (asc ''Idea Name:Concept: x'')
   \<and> summary (extractIdea (asc ''Idea Name:Concept: x'') 0) = asc ''N/A''
   \<and> ideaNameMatch (asc ''Idea Name:** Solar-Kit ** Concept: c'') = Some (asc ''** Solar-Kit **'')
   \<and> ideaName (extractIdea (asc ''Idea Name:** Solar-Kit ** Concept: c'') 0) = asc ''SolarKit''
   \<and> formatResponse (asc ''1. Idea Name: Concept: x'')
       = asc ''**1. Idea Name:** \<newline>\<newline>  **Concept:** x\<newline>\<newline>  **Key Features:** N/A\<newline>\<newline>  **Target Market:** N/A\<newline>\<newline>  **Unique Value Proposition:** N/A\<newline>\<newline>  **Monetization:** N/A\<newline>\<newline>  **Potential Challenges/Considerations:** N/A\<newline>\<newline>  **Summary:** N/A\<newline>\<newline>---''"
proof -
  note empty = missing_name_is_rendered_empty
    [of "asc ''Idea Name:Concept: x''" 0 "asc '' Concept: x''" "asc ''1. Idea Name: Concept: x''"]
  note solar = missing_name_is_rendered_empty
    [of "asc ''Idea Name:** Solar-Kit ** Concept: c''" 0 "[]" "[]"]
  have b: "asc '' Concept: x'' \<in> set (ideaBlocks (asc ''1. Idea Name: Concept: x''))"
    by (simp add: empty_name_blocks)
  have t: "trim (asc '' Concept: x'') = asc ''Concept: x''"
    by (simp add: trim_def asc_def isSpace_def)
  have l: "lazyCapture (asc ''Concept:'') (asc ''Concept: x'') = Some []"
    by (simp add: lookahead_def startsWithCI_def canonicalize_def asc_def isSpace_def)
  have a: "\<not> labelFound (asc ''Summary:'') (asc ''Idea Name:Concept: x'')"
    by (simp add: startsWithCI_def canonicalize_def asc_def)
  have d: "ideaNameMatch (asc ''Idea Name:** Solar-Kit ** Concept: c'') = Some (asc ''** Solar-Kit **'')"
    by (simp add: ideaNameMatch_def matchField_def startsWithCI_def canonicalize_def lookahead_def
        isLineTerminator_def asc_def isSpace_def)
  have e: "trim (filter (\<lambda>c. c \<noteq> 42 \<and> c \<noteq> 45) (asc ''** Solar-Kit **'')) = asc ''SolarKit''"
    by (simp add: trim_def asc_def isSpace_def)
  have f: "trim (filter (\<lambda>c. c \<noteq> 42 \<and> c \<noteq> 45) []) = []"
    by (simp add: trim_def)
  from empty b obtain captured where
    m: "ideaNameMatch (asc ''Idea Name:'' @ trim (asc '' Concept: x'')) = Some captured"
    and c: "lazyCapture (asc ''Concept:'') (trim (asc '' Concept: x'')) = Some captured"
    and n: "ideaName (extractIdea (asc ''Idea Name:'' @ trim (asc '' Concept: x'')) 0)
              = trim (filter (\<lambda>c. c \<noteq> 42 \<and> c \<noteq> 45) captured)"
    by blast
  from c have cap: "captured = []"
    unfolding t l by simp
  have 1: "ideaNameMatch (asc ''Idea Name:'' @ trim (asc '' Concept: x'')) = Some []"
    using m cap by simp
  have 2: "ideaName (extractIdea (asc ''Idea Name:'' @ trim (asc '' Concept: x'')) 0) = []"
    using n cap f by simp
  have 3: "ideaName (extractIdea (asc ''Idea Name:'' @ trim (asc '' Concept: x'')) 0) \<noteq> asc ''Idea 1''"
    unfolding 2 by (simp add: asc_def)
  from empty a have 4: "summary (extractIdea (asc ''Idea Name:Concept: x'') 0) = asc ''N/A''"
    by blast
  from solar d have 5: "ideaName (extractIdea (asc ''Idea Name:** Solar-Kit ** Concept: c'') 0)
      = trim (filter (\<lambda>c. c \<noteq> 42 \<and> c \<noteq> 45) (asc ''** Solar-Kit **''))"
    by blast
  show ?thesis
    using b 1 2 3 a 4 d 5 empty_name_output unfolding e by blast
qed

section \<open>A reply in the format of the prompt\<close>

lemma trim_id: "s \<noteq> [] \<Longrightarrow> \<not> isSpace (hd s) \<Longrightarrow> \<not> isSpace (last s) \<Longrightarrow> trim s = s"
proof -
  assume a: "s \<noteq> []" "\<not> isSpace (hd s)" "\<not> isSpace (last s)"
  then have "dropWhile isSpace s = s"
    by (cases s) auto
  moreover have "dropWhile isSpace (rev s) = rev s"
    using a(1,3) by (cases "rev s") (auto simp: last_rev [symmetric] simp del: last_rev)
  ultimately show ?thesis
    by (simp add: trim_def)
qed

lemma splitIdeas_piece: "splitIdeas piece s = (piece @ hd (splitIdeas [] s)) # tl (splitIdeas [] s)"
proof (induction s arbitrary: piece)
  case Nil
  then show ?case by simp
next
  case (Cons c cs)
  show ?case
  proof (cases "matchDelimiter (c # cs)")
    case None
    have "splitIdeas (piece @ [c]) cs = ((piece @ [c]) @ hd (splitIdeas [] cs)) # tl (splitIdeas [] cs)"
      by (rule Cons.IH)
    moreover have "splitIdeas [c] cs = ([c] @ hd (splitIdeas [] cs)) # tl (splitIdeas [] cs)"
      by (rule Cons.IH)
    ultimately show ?thesis
      using None by simp
  next
    case (Some rest)
    then show ?thesis by simp
  qed
qed

text \<open>The splitter unfolded from the front, for evaluating it on a long text.\<close>

lemma splitIdeas_front:
  "splitIdeas [] (c # cs) =
     (case matchDelimiter (c # cs) of
        Some rest \<Rightarrow> [] # splitIdeas [] rest
      | None \<Rightarrow> (case splitIdeas [] cs of [] \<Rightarrow> [] | p # ps \<Rightarrow> (c # p) # ps))"
proof (cases "matchDelimiter (c # cs)")
  case None
  obtain p ps where "splitIdeas [] cs = p # ps"
    using splitIdeas_piece [of "[]" cs] by simp
  then show ?thesis
    using None splitIdeas_piece [of "[c]" cs] by simp
next
  case (Some rest)
  then show ?thesis by simp
qed

lemma collapseSpaces_append:
  "a \<noteq> [] \<Longrightarrow> \<not> isSpace (last a) \<Longrightarrow> collapseSpaces (a @ b) = collapseSpaces a @ collapseSpaces b"
proof (induction a rule: collapseSpaces.induct)
  case 1
  then show ?case by simp
next
  case (2 c cs)
  show ?case
  proof (cases "isSpace c")
    case True
    with "2.prems" have cs: "cs \<noteq> []" and l: "\<not> isSpace (last cs)"
      by (auto split: if_splits)
    then have ex: "\<not> (\<forall>x\<in>set cs. isSpace x)"
      using last_in_set by blast
    have d: "dropWhile isSpace (cs @ b) = dropWhile isSpace cs @ b"
      using cs l by (intro dropWhile_append1 [of "last cs"]) simp_all
    have n: "dropWhile isSpace cs \<noteq> []"
      using ex unfolding dropWhile_eq_Nil_conv .
    have "suffix (dropWhile isSpace cs) cs"
      by (rule suffix_dropWhile)
    then obtain u where u: "cs = u @ dropWhile isSpace cs"
      by (auto simp: suffix_def)
    have "last cs = last (dropWhile isSpace cs)"
      using n last_appendR [of "dropWhile isSpace cs" u] u by simp
    with l have "\<not> isSpace (last (dropWhile isSpace cs))"
      by simp
    from "2.IH"(1) [OF True n this] show ?thesis
      using True d by simp
  next
    case False
    show ?thesis
    proof (cases "cs = []")
      case True
      then show ?thesis using False by simp
    next
      case ne: False
      with "2.prems" have "\<not> isSpace (last cs)"
        by simp
      from "2.IH"(2) [OF False ne this] show ?thesis
        using False by simp
    qed
  qed
qed

lemma trim_star: "trim (42 # s) = [] \<longleftrightarrow> False"
  by (simp add: trim_eq_Nil isSpace_def)

lemma collapseSpaces_before:
  "\<not> isSpace c \<Longrightarrow> collapseSpaces (a @ c # b) = collapseSpaces a @ collapseSpaces (c # b)"
proof (induction a rule: collapseSpaces.induct)
  case 1
  then show ?case by simp
next
  case (2 d ds)
  show ?case
  proof (cases "isSpace d")
    case True
    have "dropWhile isSpace (ds @ c # b) = dropWhile isSpace ds @ c # b"
      using "2.prems" by (rule dropWhile_append3)
    with True "2.IH"(1) [OF True "2.prems"] "2.prems" show ?thesis
      by simp
  next
    case False
    with "2.IH"(2) [OF False "2.prems"] show ?thesis
      by simp
  qed
qed

lemma starred_not_blank: "trim (asc (CHR ''*'' # cs)) \<noteq> []"
  by (simp add: asc_def trim_star)

lemma trim_prefix: "x \<noteq> [] \<Longrightarrow> \<not> isSpace (hd x) \<Longrightarrow> \<not> isSpace (last x) \<Longrightarrow> prefix x (trim (nl @ x @ z))"
proof -
  assume x: "x \<noteq> []" "\<not> isSpace (hd x)" "\<not> isSpace (last x)"
  then have d: "dropWhile isSpace (nl @ x @ z) = x @ z"
    by (cases x) (auto simp: nl_def isSpace_def)
  have r: "dropWhile isSpace (rev x) = rev x"
    using x(1,3) by (cases "rev x") (auto simp: last_rev [symmetric] simp del: last_rev)
  have "\<exists>w. dropWhile isSpace (rev z @ rev x) = w @ rev x"
    by (cases "\<forall>c\<in>set (rev z). isSpace c") (auto simp: dropWhile_append r simp del: set_rev)
  then obtain w where "dropWhile isSpace (rev (x @ z)) = w @ rev x"
    by auto
  then have "trim (nl @ x @ z) = x @ rev w"
    by (simp add: trim_def d)
  then show ?thesis
    by simp
qed

lemma label_facts:
  "asc ''**1. Idea Name:'' \<noteq> []" "last (asc ''**1. Idea Name:'') = 58"
  "asc ''2. Idea Name:'' \<noteq> []" "last (asc ''2. Idea Name:'') = 58"
  "asc ''3. Idea Name:'' \<noteq> []" "last (asc ''3. Idea Name:'') = 58"
  "collapseSpaces (asc ''**1. Idea Name:'') = asc ''**1. Idea Name:''"
  "collapseSpaces (asc ''2. Idea Name:'') = asc ''2. Idea Name:''"
  "collapseSpaces (asc ''3. Idea Name:'') = asc ''3. Idea Name:''"
  "\<not> isSpace 58" "\<not> isSpace 42" "\<not> isSpace 51"
  by (simp_all add: asc_def isSpace_def)

lemma collapse_first: "collapseSpaces firstLines = firstBlock"
  by (simp add: firstLines_def firstBlock_def asc_def isSpace_def)

lemma firstBlock_not_blank: "trim firstBlock \<noteq> []"
  unfolding firstBlock_def by (rule starred_not_blank)

lemma collapse_second: "collapseSpaces secondLines = secondBlock"
  by (simp add: secondLines_def secondBlock_def asc_def isSpace_def)

lemma secondBlock_not_blank: "trim secondBlock \<noteq> []"
  unfolding secondBlock_def by (rule starred_not_blank)

lemma collapse_third: "collapseSpaces thirdLines = thirdBlock"
  by (simp add: thirdLines_def thirdBlock_def asc_def isSpace_def)

lemma thirdBlock_not_blank: "trim thirdBlock \<noteq> []"
  unfolding thirdBlock_def by (rule starred_not_blank)

lemma thirdBlock_last: "last thirdBlock = 51"
  by (simp add: thirdBlock_def asc_def)

lemma prompt_clean:
  "cleanedText promptFormatReply =
     asc ''**'' @ asc ''1. Idea Name:''
       @ firstBlock @ asc ''2. Idea Name:'' @ secondBlock @ asc ''3. Idea Name:'' @ thirdBlock"
proof -
  let ?x = "asc ''**1. Idea Name:'' @ firstBlock @ asc ''2. Idea Name:'' @ secondBlock
      @ asc ''3. Idea Name:'' @ thirdBlock"
  have l2: "asc ''2. Idea Name:'' = 50 # asc ''. Idea Name:''"
    and l3: "asc ''3. Idea Name:'' = 51 # asc ''. Idea Name:''"
    and d: "\<not> isSpace 50" "\<not> isSpace 51"
    by (simp_all add: asc_def isSpace_def)
  have "collapseSpaces (asc ''3. Idea Name:'' @ thirdLines) = asc ''3. Idea Name:'' @ thirdBlock"
    by (simp add: collapseSpaces_append label_facts collapse_third)
  then have "collapseSpaces (secondLines @ asc ''3. Idea Name:'' @ thirdLines)
      = secondBlock @ asc ''3. Idea Name:'' @ thirdBlock"
    using collapseSpaces_before [OF d(2), of secondLines "asc ''. Idea Name:'' @ thirdLines"]
    by (simp add: l3 collapse_second)
  then have "collapseSpaces (asc ''2. Idea Name:'' @ secondLines @ asc ''3. Idea Name:'' @ thirdLines)
      = asc ''2. Idea Name:'' @ secondBlock @ asc ''3. Idea Name:'' @ thirdBlock"
    by (simp add: collapseSpaces_append label_facts)
  then have "collapseSpaces (firstLines @ asc ''2. Idea Name:'' @ secondLines @ asc ''3. Idea Name:'' @ thirdLines)
      = firstBlock @ asc ''2. Idea Name:'' @ secondBlock @ asc ''3. Idea Name:'' @ thirdBlock"
    using collapseSpaces_before [OF d(1), of firstLines
        "asc ''. Idea Name:'' @ secondLines @ asc ''3. Idea Name:'' @ thirdLines"]
    by (simp add: l2 collapse_first)
  then have c: "collapseSpaces promptFormatReply = ?x"
    by (simp add: promptFormatReply_def collapseSpaces_append label_facts)
  have ne: "thirdBlock \<noteq> []"
    using thirdBlock_not_blank by (auto simp: trim_def)
  have "hd ?x = 42"
    by (simp add: asc_def)
  moreover have "last ?x = 51"
    by (simp add: ne thirdBlock_last)
  moreover have "?x \<noteq> []"
    by (simp add: label_facts)
  ultimately have "trim ?x = ?x"
    by (intro trim_id) (simp_all add: label_facts)
  moreover have "asc ''**1. Idea Name:'' = asc ''**'' @ asc ''1. Idea Name:''"
    by (simp add: asc_def)
  ultimately show ?thesis
    by (simp add: cleanedText_def c)
qed

lemma split_first:
  "splitIdeas [] (firstBlock @ asc ''2. Idea Name:'' @ rest) = firstBlock # splitIdeas [] rest"
  by (simp add: firstBlock_def splitIdeas_front matchDelimiter_def asc_def isDigit_def isSpace_def
      del: splitIdeas.simps(2))

lemma split_second:
  "splitIdeas [] (secondBlock @ asc ''3. Idea Name:'' @ rest) = secondBlock # splitIdeas [] rest"
  by (simp add: secondBlock_def splitIdeas_front matchDelimiter_def asc_def isDigit_def isSpace_def
      del: splitIdeas.simps(2))

lemma split_third: "splitIdeas [] thirdBlock = [thirdBlock]"
  by (simp add: thirdBlock_def splitIdeas_front matchDelimiter_def asc_def isDigit_def isSpace_def
      del: splitIdeas.simps(2))

lemma asterisks_record:
  "extractIdea (asc ''Idea Name:'' @ trim (asc ''**'')) index
   = \<lparr> ideaName = [], concept = asc ''N/A'', keyFeatures = asc ''N/A'', targetMarket = asc ''N/A'',
       usp = asc ''N/A'', monetization = asc ''N/A'', challenges = asc ''N/A'', summary = asc ''N/A'' \<rparr>"
proof -
  have t: "asc ''Idea Name:'' @ trim (asc ''**'') = asc ''Idea Name:**''"
    by (simp add: trim_def asc_def isSpace_def)
  have "ideaNameMatch (asc ''Idea Name:**'') = Some (asc ''**'')"
    by (simp add: ideaNameMatch_def matchField_def startsWithCI_def canonicalize_def lookahead_def
        isLineTerminator_def asc_def isSpace_def)
  moreover have "trim (filter (\<lambda>c. c \<noteq> 42 \<and> c \<noteq> 45) (asc ''**'')) = []"
    by (simp add: trim_def asc_def)
  moreover have "conceptMatch (asc ''Idea Name:**'') = None"
    by (simp add: conceptMatch_def matchField_def startsWithCI_def canonicalize_def asc_def)
  moreover have "keyFeaturesMatch (asc ''Idea Name:**'') = None"
    by (simp add: keyFeaturesMatch_def matchField_def startsWithCI_def canonicalize_def asc_def)
  moreover have "targetMarketMatch (asc ''Idea Name:**'') = None"
    by (simp add: targetMarketMatch_def matchField_def startsWithCI_def canonicalize_def asc_def)
  moreover have "uspMatch (asc ''Idea Name:**'') = None"
    by (simp add: uspMatch_def matchField_def startsWithCI_def canonicalize_def asc_def)
  moreover have "monetizationMatch (asc ''Idea Name:**'') = None"
    by (simp add: monetizationMatch_def matchField_def startsWithCI_def canonicalize_def asc_def)
  moreover have "challengesMatch (asc ''Idea Name:**'') = None"
    by (simp add: challengesMatch_def matchField_def startsWithCI_def canonicalize_def asc_def)
  moreover have "summaryMatch (asc ''Idea Name:**'') = None"
    by (simp add: summaryMatch_def matchSummary_def startsWithCI_def canonicalize_def asc_def)
  ultimately show ?thesis
    by (simp add: extractIdea_def t orNA_def)
qed

lemma asterisks_split: "splitIdeas [] (asc ''**'' @ asc ''1. Idea Name:'' @ rest) = asc ''**'' # splitIdeas [] rest"
proof -
  have a: "asc ''**'' @ asc ''1. Idea Name:'' @ rest = 42 # 42 # (asc ''1. Idea Name:'' @ rest)"
    by (simp add: asc_def)
  have n1: "matchDelimiter (42 # 42 # (asc ''1. Idea Name:'' @ rest)) = None"
    and n2: "matchDelimiter (42 # (asc ''1. Idea Name:'' @ rest)) = None"
    by (simp_all add: matchDelimiter_def isDigit_def)
  have "asc ''1. Idea Name:'' @ rest = 49 # tl (asc ''1. Idea Name:'' @ rest)"
    by (simp add: asc_def)
  then obtain t where t: "asc ''1. Idea Name:'' @ rest = 49 # t"
    by blast
  have m: "matchDelimiter (49 # t) = Some rest"
    using delimiter_matches [of rest] t by simp
  have "splitIdeas [] (42 # 42 # 49 # t) = [42, 42] # splitIdeas [] rest"
    using n1 n2 m unfolding t by simp
  then show ?thesis
    unfolding a t by (simp add: asc_def)
qed

lemma asterisks_rendered:
  "formatBlock (asc ''**'') 0
   = nl @ asc ''**1. Idea Name:** \<newline>\<newline>  **Concept:** N/A\<newline>\<newline>  **Key Features:** N/A\<newline>\<newline>  **Target Market:** N/A\<newline>\<newline>  **Unique Value Proposition:** N/A\<newline>\<newline>  **Monetization:** N/A\<newline>\<newline>  **Potential Challenges/Considerations:** N/A\<newline>\<newline>  **Summary:** N/A\<newline>\<newline>---'' @ nl"
proof -
  have "formatBlock (asc ''**'') 0
      = renderIdea 0 \<lparr> ideaName = [], concept = asc ''N/A'', keyFeatures = asc ''N/A'',
          targetMarket = asc ''N/A'', usp = asc ''N/A'', monetization = asc ''N/A'',
          challenges = asc ''N/A'', summary = asc ''N/A'' \<rparr>"
    by (simp add: formatBlock_def asterisks_record)
  then show ?thesis
    by (simp add: renderIdea_def nl_def asc_def showNat.simps)
qed

text \<open>
  Claim C6 on the code. The prompt asks the model to set each label in asterisks
  (\<^verbatim>\<open>**1. Idea Name:** [Creative Name]\<close>, line 125). In such a reply the two asterisks
  before the first number are a piece of their own; the filter of line 21 drops blank pieces
  only, so they are the first block. The output then starts with a record that has an empty
  name and \<^verbatim>\<open>N/A\<close> in the seven other fields, and the ideas of the reply follow it,
  numbered from 2: a reply with three ideas is rendered as four records.
\<close>

theorem leading_asterisks_are_a_record:
  assumes "cleanedText reply = asc ''**'' @ asc ''1. Idea Name:'' @ rest"
  shows "ideaBlocks reply = asc ''**'' # filter (\<lambda>block. trim block \<noteq> []) (splitIdeas [] rest)
       \<and> extractIdea (asc ''Idea Name:'' @ trim (asc ''**'')) 0
           = \<lparr> ideaName = [], concept = asc ''N/A'', keyFeatures = asc ''N/A'',
               targetMarket = asc ''N/A'', usp = asc ''N/A'', monetization = asc ''N/A'',
               challenges = asc ''N/A'', summary = asc ''N/A'' \<rparr>
       \<and> formatResponse reply
           = trim (formatBlock (asc ''**'') 0
               @ concat (map (\<lambda>(index, block). formatBlock block index)
                   (enumerate 1 (filter (\<lambda>block. trim block \<noteq> []) (splitIdeas [] rest)))))
       \<and> prefix (asc ''**1. Idea Name:** \<newline>\<newline>  **Concept:** N/A\<newline>\<newline>  **Key Features:** N/A\<newline>\<newline>  **Target Market:** N/A\<newline>\<newline>  **Unique Value Proposition:** N/A\<newline>\<newline>  **Monetization:** N/A\<newline>\<newline>  **Potential Challenges/Considerations:** N/A\<newline>\<newline>  **Summary:** N/A\<newline>\<newline>---'')
           (formatResponse reply)"
proof -
  have "trim (asc ''**'') \<noteq> []"
    by (simp add: trim_def asc_def isSpace_def)
  then have b: "ideaBlocks reply = asc ''**'' # filter (\<lambda>block. trim block \<noteq> []) (splitIdeas [] rest)"
    by (simp add: ideaBlocks_def assms asterisks_split)
  have f: "formatResponse reply
           = trim (formatBlock (asc ''**'') 0
               @ concat (map (\<lambda>(index, block). formatBlock block index)
                   (enumerate 1 (filter (\<lambda>block. trim block \<noteq> []) (splitIdeas [] rest)))))"
    by (simp add: formatResponse_def b)
  have "prefix (asc ''**1. Idea Name:** \<newline>\<newline>  **Concept:** N/A\<newline>\<newline>  **Key Features:** N/A\<newline>\<newline>  **Target Market:** N/A\<newline>\<newline>  **Unique Value Proposition:** N/A\<newline>\<newline>  **Monetization:** N/A\<newline>\<newline>  **Potential Challenges/Considerations:** N/A\<newline>\<newline>  **Summary:** N/A\<newline>\<newline>---'')
           (formatResponse reply)"
    unfolding f asterisks_rendered append_assoc by (rule trim_prefix) (simp_all add: asc_def isSpace_def)
  with b f show ?thesis
    by (simp only: asterisks_record simp_thms)
qed

text \<open>
  The theorem at the reply with three ideas: four blocks, and an output that starts with the
  record of the two asterisks.
\<close>

theorem leading_asterisks_witness:
  "cleanedText promptFormatReply
     = asc ''**'' @ asc ''1. Idea Name:''
       @ firstBlock @ asc ''2. Idea Name:'' @ secondBlock @ asc ''3. Idea Name:'' @ thirdBlock
   \<and> ideaBlocks promptFormatReply = [asc ''**'', firstBlock, secondBlock, thirdBlock]
   \<and> length (ideaBlocks promptFormatReply) = 4
   \<and> prefix (asc ''**1. Idea Name:** \<newline>\<newline>  **Concept:** N/A\<newline>\<newline>  **Key Features:** N/A\<newline>\<newline>  **Target Market:** N/A\<newline>\<newline>  **Unique Value Proposition:** N/A\<newline>\<newline>  **Monetization:** N/A\<newline>\<newline>  **Potential Challenges/Considerations:** N/A\<newline>\<newline>  **Summary:** N/A\<newline>\<newline>---'')
       (formatResponse promptFormatReply)"
proof -
  have s: "filter (\<lambda>block. trim block \<noteq> [])
        (splitIdeas [] (firstBlock @ asc ''2. Idea Name:'' @ secondBlock @ asc ''3. Idea Name:'' @ thirdBlock))
      = [firstBlock, secondBlock, thirdBlock]"
    by (simp add: split_first split_second split_third firstBlock_not_blank secondBlock_not_blank
        thirdBlock_not_blank del: splitIdeas.simps)
  note t = leading_asterisks_are_a_record [OF prompt_clean]
  have b: "ideaBlocks promptFormatReply = [asc ''**'', firstBlock, secondBlock, thirdBlock]"
    using conjunct1 [OF t] unfolding s .
  have p: "prefix (asc ''**1. Idea Name:** \<newline>\<newline>  **Concept:** N/A\<newline>\<newline>  **Key Features:** N/A\<newline>\<newline>  **Target Market:** N/A\<newline>\<newline>  **Unique Value Proposition:** N/A\<newline>\<newline>  **Monetization:** N/A\<newline>\<newline>  **Potential Challenges/Considerations:** N/A\<newline>\<newline>  **Summary:** N/A\<newline>\<newline>---'')
       (formatResponse promptFormatReply)"
    using conjunct2 [OF conjunct2 [OF conjunct2 [OF t]]] .
  show ?thesis
    using prompt_clean b p by (simp only: list.size simp_thms)
qed

end
